theory Spec2Isabelle
  imports Complex_Main "HOL-Library.Log_Nat"
begin

section \<open>JavaScript values used by the telemetry pipeline\<close>

text \<open>
  JSON values as the host passes them around. \<open>JUndefined\<close> stands for a property whose
  value is \<open>undefined\<close> (the serializer drops it). An object is the list of its own
  enumerable properties in the order in which JavaScript lists them: the keys that are
  array indices first, in ascending order, then the other keys in the order in which
  they were added.
\<close>

datatype json =
    JUndefined
  | JNull
  | JBool bool
  | JNum rat
  | JStr string
  | JArr "json list"
  | JObj "(string \<times> json) list"

type_synonym object = "(string \<times> json) list"

text \<open>
  A key is an array index when it is the decimal notation, without a leading zero, of a
  number up to \<open>2^32 - 2\<close>.
\<close>

definition digit_value :: "char \<Rightarrow> nat option" where
  "digit_value c =
     map_of [(CHR ''0'', 0), (CHR ''1'', 1), (CHR ''2'', 2), (CHR ''3'', 3), (CHR ''4'', 4),
             (CHR ''5'', 5), (CHR ''6'', 6), (CHR ''7'', 7), (CHR ''8'', 8), (CHR ''9'', 9)] c"

fun parse_digits :: "nat \<Rightarrow> string \<Rightarrow> nat option" where
  "parse_digits acc [] = Some acc"
| "parse_digits acc (c # cs) =
     (case digit_value c of None \<Rightarrow> None | Some d \<Rightarrow> parse_digits (10 * acc + d) cs)"

definition array_index :: "string \<Rightarrow> nat option" where
  "array_index k =
     (case k of
        [] \<Rightarrow> None
      | c # cs \<Rightarrow>
          if c = CHR ''0'' \<and> cs \<noteq> [] then None
          else (case parse_digits 0 k of
                  None \<Rightarrow> None
                | Some n \<Rightarrow> if n \<le> 4294967294 then Some n else None))"

text \<open>
  Adding a property under a key the object does not have: an array index goes before
  the first larger index or other key, any other key goes last.
\<close>

fun obj_insert :: "string \<Rightarrow> 'v \<Rightarrow> (string \<times> 'v) list \<Rightarrow> (string \<times> 'v) list" where
  "obj_insert k v [] = [(k, v)]"
| "obj_insert k v ((k', v') # ps) =
     (case array_index k of
        None \<Rightarrow> (k', v') # obj_insert k v ps
      | Some n \<Rightarrow>
          (case array_index k' of
             Some n' \<Rightarrow> if n' < n then (k', v') # obj_insert k v ps else (k, v) # (k', v') # ps
           | None \<Rightarrow> (k, v) # (k', v') # ps))"

text \<open>Assigning a property: an existing key keeps its position.\<close>

definition obj_set :: "string \<Rightarrow> 'v \<Rightarrow> (string \<times> 'v) list \<Rightarrow> (string \<times> 'v) list" where
  "obj_set k v ps =
     (if k \<in> fst ` set ps then map (\<lambda>(k', v'). if k' = k then (k', v) else (k', v')) ps
      else obj_insert k v ps)"

text \<open>
  Reading \<open>obj[key]\<close> on a plain object: the value of an own property, else a member
  inherited from \<open>Object.prototype\<close> (each of them is truthy and is not an array), else
  \<open>undefined\<close>.
\<close>

definition Object_prototype_keys :: "string list" where
  "Object_prototype_keys =
     [''constructor'', ''__defineGetter__'', ''__defineSetter__'', ''hasOwnProperty'',
      ''__lookupGetter__'', ''__lookupSetter__'', ''isPrototypeOf'', ''propertyIsEnumerable'',
      ''toString'', ''valueOf'', ''__proto__'', ''toLocaleString'']"

datatype 'v property = Own 'v | Inherited | Absent

definition obj_get :: "(string \<times> 'v) list \<Rightarrow> string \<Rightarrow> 'v property" where
  "obj_get ps k =
     (case map_of ps k of
        Some v \<Rightarrow> Own v
      | None \<Rightarrow> if k \<in> set Object_prototype_keys then Inherited else Absent)"

text \<open>The object literal \<open>{...a, ...b}\<close>.\<close>

definition spread :: "object \<Rightarrow> object \<Rightarrow> object" where
  "spread a b = fold (\<lambda>(k, v). obj_set k v) b a"

text \<open>Spreading \<open>undefined\<close> adds nothing.\<close>

definition spread_opt :: "object \<Rightarrow> object option \<Rightarrow> object" where
  "spread_opt a b = (case b of None \<Rightarrow> a | Some b' \<Rightarrow> spread a b')"

text \<open>
  A value of type \<open>unknown\<close> handed to the logger as the error: \<open>undefined\<close>, \<open>null\<close>, an
  \<open>Error\<close> (message, name, stack, own enumerable properties), another object, or a
  primitive (given by its \<open>toString()\<close> and its \<open>typeof\<close>).
\<close>

datatype js_value =
    VUndefined
  | VNull
  | VError string string "string option" object
  | VObject object
  | VPrim string string

fun errorAsJson :: "js_value \<Rightarrow> json" where
  "errorAsJson VUndefined = JUndefined"
| "errorAsJson VNull = JUndefined"
| "errorAsJson (VError msg name stack props) =
     JObj (spread
       [(''message'', JStr msg), (''name'', JStr name),
        (''stack'', (case stack of None \<Rightarrow> JUndefined | Some st \<Rightarrow> JStr st))]
       props)"
| "errorAsJson (VObject props) = JObj (spread [] props)"
| "errorAsJson (VPrim str ty) = JObj [(''message'', JStr str), (''name'', JStr ty)]"

text \<open>
  The two library functions the buffers call: \<open>JSON.stringify\<close> and the formatting of a
  clock offset as an ISO date (\<open>highPrecisionISODate\<close>, which goes through \<open>Date\<close>).
  Every definition below takes them as a parameter.
\<close>

record runtime =
  JSON_stringify :: "json \<Rightarrow> string"
  isoDate :: "rat \<Rightarrow> string"

section \<open>Log levels and the enriching logger\<close>

datatype LogLevel = Trace | Debug | Info | Warning | Error | Fatal

fun level_name :: "LogLevel \<Rightarrow> string" where
  "level_name Trace = ''trace''"
| "level_name Debug = ''debug''"
| "level_name Info = ''info''"
| "level_name Warning = ''warning''"
| "level_name Error = ''error''"
| "level_name Fatal = ''fatal''"

text \<open>\<open>['fatal', 'error', 'warning', 'info', 'debug', 'trace'].indexOf(level)\<close>\<close>

fun level_index :: "LogLevel \<Rightarrow> nat" where
  "level_index Fatal = 0"
| "level_index Error = 1"
| "level_index Warning = 2"
| "level_index Info = 3"
| "level_index Debug = 4"
| "level_index Trace = 5"

text \<open>
  An \<open>EnrichingLogger\<close> without its buffer: the buffer is shared and mutable, so it is
  threaded separately as state.
\<close>

record EnrichingLogger =
  el_level :: nat
  el_reservedEnrichment :: "object option"
  el_customEnrichment :: "object option"

text \<open>
  \<open>makeLogger\<close> passes the abort signal as the third constructor argument, which is the
  reserved enrichment; the signal is given here by its own enumerable properties
  (none for a native signal).
\<close>

definition makeLogger :: "LogLevel option \<Rightarrow> object \<Rightarrow> EnrichingLogger" where
  "makeLogger minimumLogLevel signal =
     \<lparr>el_level = (case minimumLogLevel of Some l \<Rightarrow> level_index l | None \<Rightarrow> 5),
      el_reservedEnrichment = Some signal,
      el_customEnrichment = None\<rparr>"

definition enrich :: "EnrichingLogger \<Rightarrow> object \<Rightarrow> EnrichingLogger" where
  "enrich lg flds =
     lg\<lparr>el_customEnrichment :=
          Some (spread (spread_opt [] (el_customEnrichment lg)) flds)\<rparr>"

definition enrichReserved :: "EnrichingLogger \<Rightarrow> object \<Rightarrow> EnrichingLogger" where
  "enrichReserved lg flds =
     lg\<lparr>el_reservedEnrichment :=
          Some (spread (spread_opt [] (el_reservedEnrichment lg)) flds)\<rparr>"

text \<open>The arguments of one call of the buffer's \<open>collect\<close>.\<close>

record CollectArgs =
  ca_level :: LogLevel
  ca_numericLogLevel :: nat
  ca_message :: string
  ca_error :: js_value
  ca_fields :: "object option"
  ca_reservedEnrichment :: "object option"
  ca_customEnrichment :: "object option"

definition collect_args ::
  "LogLevel \<Rightarrow> nat \<Rightarrow> EnrichingLogger \<Rightarrow> string \<Rightarrow> js_value \<Rightarrow> object option \<Rightarrow> CollectArgs"
where
  "collect_args l n lg message err flds =
     \<lparr>ca_level = l, ca_numericLogLevel = n, ca_message = message, ca_error = err,
      ca_fields = flds, ca_reservedEnrichment = el_reservedEnrichment lg,
      ca_customEnrichment = el_customEnrichment lg\<rparr>"

text \<open>
  The six leveled methods. Each returns \<open>None\<close> when it returns before calling the
  buffer, and otherwise the arguments it passes to \<open>collect\<close>.
\<close>

definition logger_trace ::
  "EnrichingLogger \<Rightarrow> string \<Rightarrow> js_value \<Rightarrow> object option \<Rightarrow> CollectArgs option" where
  "logger_trace lg message err flds =
     (if el_level lg < 5 then None else Some (collect_args Trace 5 lg message err flds))"

definition logger_debug ::
  "EnrichingLogger \<Rightarrow> string \<Rightarrow> js_value \<Rightarrow> object option \<Rightarrow> CollectArgs option" where
  "logger_debug lg message err flds =
     (if el_level lg < 4 then None else Some (collect_args Debug 4 lg message err flds))"

definition logger_info ::
  "EnrichingLogger \<Rightarrow> string \<Rightarrow> js_value \<Rightarrow> object option \<Rightarrow> CollectArgs option" where
  "logger_info lg message err flds =
     (if el_level lg < 3 then None else Some (collect_args Debug 3 lg message err flds))"

definition logger_warn ::
  "EnrichingLogger \<Rightarrow> string \<Rightarrow> js_value \<Rightarrow> object option \<Rightarrow> CollectArgs option" where
  "logger_warn lg message err flds =
     (if el_level lg < 2 then None else Some (collect_args Debug 2 lg message err flds))"

definition logger_error ::
  "EnrichingLogger \<Rightarrow> string \<Rightarrow> js_value \<Rightarrow> object option \<Rightarrow> CollectArgs option" where
  "logger_error lg message err flds =
     (if el_level lg < 1 then None else Some (collect_args Error 1 lg message err flds))"

definition logger_fatal ::
  "EnrichingLogger \<Rightarrow> string \<Rightarrow> js_value \<Rightarrow> object option \<Rightarrow> CollectArgs option" where
  "logger_fatal lg message err flds =
     Some (collect_args Fatal 0 lg message err flds)"

text \<open>The method of the logger that carries a given level's name.\<close>

fun logger_method ::
  "LogLevel \<Rightarrow> EnrichingLogger \<Rightarrow> string \<Rightarrow> js_value \<Rightarrow> object option \<Rightarrow> CollectArgs option"
where
  "logger_method Trace = logger_trace"
| "logger_method Debug = logger_debug"
| "logger_method Info = logger_info"
| "logger_method Warning = logger_warn"
| "logger_method Error = logger_error"
| "logger_method Fatal = logger_fatal"

text \<open>The severity order \<open>trace < debug < info < warning < error < fatal\<close>.\<close>

fun severity :: "LogLevel \<Rightarrow> nat" where
  "severity Trace = 0"
| "severity Debug = 1"
| "severity Info = 2"
| "severity Warning = 3"
| "severity Error = 4"
| "severity Fatal = 5"

text \<open>The object that \<open>collect\<close> hands to \<open>JSON.stringify\<close>.\<close>

definition log_record :: "runtime \<Rightarrow> rat \<Rightarrow> CollectArgs \<Rightarrow> object" where
  "log_record rt offset a =
     spread_opt
       (spread_opt
          [(''timestamp'', JStr (isoDate rt offset)),
           (''level'', JStr (level_name (ca_level a))),
           (''message'', JStr (ca_message a)),
           (''error'', errorAsJson (ca_error a))]
          (ca_reservedEnrichment a))
       (case (if ca_fields a \<noteq> None then ca_fields a else ca_customEnrichment a) of
          None \<Rightarrow> None
        | Some _ \<Rightarrow>
            Some [(''fields'',
              JObj (case ca_customEnrichment a of
                      Some c \<Rightarrow> (case ca_fields a of Some f \<Rightarrow> spread c f | None \<Rightarrow> c)
                    | None \<Rightarrow> (case ca_fields a of Some f \<Rightarrow> f | None \<Rightarrow> [])))])"

section \<open>The log buffer\<close>

record LogEntry =
  le_level :: LogLevel
  le_timestamp :: rat
  le_message :: string
  le_error :: js_value
  le_json :: string

text \<open>
  What one call of the transport's \<open>sendEntries\<close> returns: a promise that settles later,
  or \<open>undefined\<close>. The transport is outside the program, so every operation that may call
  it takes the answer it gives as a parameter.
\<close>

datatype send_result = ReturnsPromise | ReturnsUndefined

text \<open>
  The promise held in \<open>#flusher\<close>. Each flush replaces it by
  \<open>flusher.then(() => sendEntries(batch))\<close>, so the promises form one chain: a head,
  which is the send in flight (by the number of its promise) or a settled promise, and the
  batches of the callbacks that wait behind it, oldest first. A rejected promise never
  runs a \<open>then\<close> callback.
\<close>

datatype promise_state = InFlight nat | Fulfilled | Rejected

record flusher_chain =
  fc_head :: promise_state
  fc_queue :: "LogEntry list list"

text \<open>
  The buffer's fields, then the part of the runtime it acts on: whether the
  \<open>setImmediate\<close> callback is scheduled, the armed timers (handle and due time), the next
  fresh handle, every batch passed to \<open>sendEntries\<close> so far, and the promises returned by
  \<open>sendEntries\<close> that have not settled.
\<close>

record LogBuffer =
  lb_entries :: "LogEntry list"
  lb_size :: nat
  lb_flusher :: "flusher_chain option"
  lb_asyncTransport :: "bool option"
  lb_timeout :: "nat option"
  lb_immediate :: bool
  lb_timers :: "(nat \<times> rat) list"
  lb_next :: nat
  lb_sent :: "LogEntry list list"
  lb_inflight :: "nat list"

definition new_LogBuffer :: LogBuffer where
  "new_LogBuffer =
     \<lparr>lb_entries = [], lb_size = 0, lb_flusher = None, lb_asyncTransport = None,
      lb_timeout = None, lb_immediate = False, lb_timers = [], lb_next = 0,
      lb_sent = [], lb_inflight = []\<rparr>"

definition sendEntries :: "send_result \<Rightarrow> LogEntry list \<Rightarrow> LogBuffer \<Rightarrow> nat option \<times> LogBuffer" where
  "sendEntries r batch s =
     (let s' = s\<lparr>lb_sent := lb_sent s @ [batch]\<rparr>
      in case r of
           ReturnsUndefined \<Rightarrow> (None, s')
         | ReturnsPromise \<Rightarrow>
             (Some (lb_next s),
              s'\<lparr>lb_inflight := lb_inflight s @ [lb_next s], lb_next := Suc (lb_next s)\<rparr>))"

definition chain_then :: "flusher_chain \<Rightarrow> LogEntry list \<Rightarrow> flusher_chain" where
  "chain_then c batch =
     (if fc_head c = Rejected then c else c\<lparr>fc_queue := fc_queue c @ [batch]\<rparr>)"

definition startFlush :: "send_result \<Rightarrow> LogEntry list \<Rightarrow> LogBuffer \<Rightarrow> LogBuffer" where
  "startFlush r batch s =
     (case lb_flusher s of
        Some c \<Rightarrow> s\<lparr>lb_flusher := Some (chain_then c batch)\<rparr>
      | None \<Rightarrow>
          (case sendEntries r batch s of
             (p, s') \<Rightarrow>
               s'\<lparr>lb_flusher :=
                    (case p of None \<Rightarrow> None
                     | Some i \<Rightarrow> Some \<lparr>fc_head = InFlight i, fc_queue = []\<rparr>)\<rparr>))"

definition clearTimeout :: "nat \<Rightarrow> LogBuffer \<Rightarrow> LogBuffer" where
  "clearTimeout h s = s\<lparr>lb_timers := filter (\<lambda>t. fst t \<noteq> h) (lb_timers s)\<rparr>"

definition setTimeout :: "rat \<Rightarrow> LogBuffer \<Rightarrow> LogBuffer" where
  "setTimeout due s =
     s\<lparr>lb_timeout := Some (lb_next s),
       lb_timers := lb_timers s @ [(lb_next s, due)],
       lb_next := Suc (lb_next s)\<rparr>"

text \<open>
  What the future returned by \<open>flush()\<close> waits for: nothing (the early return), or the
  value of \<open>#flusher\<close> after the flush was started.
\<close>

datatype flush_result = ReturnsAtOnce | Awaits "flusher_chain option"

definition flush :: "send_result \<Rightarrow> LogBuffer \<Rightarrow> flush_result \<times> LogBuffer" where
  "flush r s =
     (if length (lb_entries s) = 0 then (ReturnsAtOnce, s)
      else
        (let s1 = startFlush r (lb_entries s) s;
             s2 = s1\<lparr>lb_entries := [], lb_size := 0\<rparr>;
             s3 = (case lb_timeout s2 of
                     Some h \<Rightarrow> (clearTimeout h s2)\<lparr>lb_timeout := None\<rparr>
                   | None \<Rightarrow> s2)
         in (Awaits (lb_flusher s3), s3)))"

definition make_entry :: "runtime \<Rightarrow> rat \<Rightarrow> CollectArgs \<Rightarrow> LogEntry" where
  "make_entry rt offset a =
     \<lparr>le_level = ca_level a, le_timestamp = offset, le_message = ca_message a,
      le_error = ca_error a,
      le_json = JSON_stringify rt (JObj (log_record rt offset a))\<rparr>"

text \<open>
  \<open>collect\<close>, called at clock reading \<open>offset\<close> (milliseconds). The idle timer is due
  2000 ms later.
\<close>

definition collect :: "runtime \<Rightarrow> send_result \<Rightarrow> rat \<Rightarrow> CollectArgs \<Rightarrow> LogBuffer \<Rightarrow> LogBuffer" where
  "collect rt r offset a s =
     (let entry = make_entry rt offset a;
          s1 = s\<lparr>lb_entries := lb_entries s @ [entry],
                 lb_size := lb_size s + length (le_json entry)\<rparr>
      in if lb_asyncTransport s1 = Some False then
           (snd (sendEntries r (lb_entries s1) s1))\<lparr>lb_entries := [], lb_size := 0\<rparr>
         else if lb_asyncTransport s1 = None then
           s1\<lparr>lb_asyncTransport := Some True, lb_immediate := True\<rparr>
         else if ca_numericLogLevel a < 2 \<or> length (lb_entries s1) > 8 \<or> lb_size s1 > 64000
           then snd (flush r s1)
         else setTimeout (offset + 2000) s1)"

text \<open>The callback given to \<open>setImmediate\<close> by the first \<open>collect\<close>.\<close>

definition immediate_callback :: "send_result \<Rightarrow> LogBuffer \<Rightarrow> LogBuffer" where
  "immediate_callback r s =
     (if \<not> lb_immediate s then s
      else
        (let s0 = s\<lparr>lb_immediate := False\<rparr>
         in if lb_flusher s0 \<noteq> None then s0
            else
              (case sendEntries r (lb_entries s0) s0 of
                 (p, s1) \<Rightarrow>
                   (let s2 = s1\<lparr>lb_entries := [], lb_size := 0\<rparr>
                    in case p of
                         Some i \<Rightarrow> s2\<lparr>lb_flusher := Some \<lparr>fc_head = InFlight i, fc_queue = []\<rparr>\<rparr>
                       | None \<Rightarrow> s2\<lparr>lb_asyncTransport := Some False\<rparr>))))"

text \<open>The callback of the timer with handle \<open>h\<close>, run when that timer is still armed.\<close>

definition timer_callback :: "send_result \<Rightarrow> nat \<Rightarrow> LogBuffer \<Rightarrow> LogBuffer" where
  "timer_callback r h s =
     (if h \<notin> fst ` set (lb_timers s) then s
      else (snd (flush r (clearTimeout h s)))\<lparr>lb_timeout := None\<rparr>)"

text \<open>
  The oldest waiting \<open>then\<close> callback runs once the promise before it is fulfilled: it
  calls \<open>sendEntries\<close> on its batch, and the chain goes on with what that returns.
\<close>

definition then_callback :: "send_result \<Rightarrow> LogBuffer \<Rightarrow> LogBuffer" where
  "then_callback r s =
     (case lb_flusher s of
        None \<Rightarrow> s
      | Some c \<Rightarrow>
          (case fc_queue c of
             [] \<Rightarrow> s
           | batch # q \<Rightarrow>
               if fc_head c \<noteq> Fulfilled then s
               else
                 (case sendEntries r batch s of
                    (p, s') \<Rightarrow>
                      s'\<lparr>lb_flusher :=
                           Some \<lparr>fc_head = (case p of None \<Rightarrow> Fulfilled | Some i \<Rightarrow> InFlight i),
                                 fc_queue = q\<rparr>\<rparr>)))"

text \<open>
  The transport settles the promise \<open>i\<close> it returned. When it rejects, the callbacks
  chained behind it are skipped.
\<close>

definition settle :: "nat \<Rightarrow> bool \<Rightarrow> LogBuffer \<Rightarrow> LogBuffer" where
  "settle i ok s =
     (if i \<notin> set (lb_inflight s) then s
      else
        (let s' = s\<lparr>lb_inflight := removeAll i (lb_inflight s)\<rparr>
         in case lb_flusher s' of
              None \<Rightarrow> s'
            | Some c \<Rightarrow>
                if fc_head c = InFlight i
                then s'\<lparr>lb_flusher :=
                          Some (if ok then c\<lparr>fc_head := Fulfilled\<rparr>
                                else \<lparr>fc_head = Rejected, fc_queue = []\<rparr>)\<rparr>
                else s'))"

text \<open>
  Everything that can happen to a buffer, in any order: the program calls \<open>collect\<close> or
  \<open>flush\<close>, the runtime runs a scheduled callback, the transport settles a promise.
\<close>

datatype lb_action =
    ACollect send_result rat CollectArgs
  | AFlush send_result
  | AImmediate send_result
  | ATimer send_result nat
  | AThen send_result
  | ASettle nat bool

fun lb_step :: "runtime \<Rightarrow> LogBuffer \<Rightarrow> lb_action \<Rightarrow> LogBuffer" where
  "lb_step rt s (ACollect r offset a) = collect rt r offset a s"
| "lb_step rt s (AFlush r) = snd (flush r s)"
| "lb_step rt s (AImmediate r) = immediate_callback r s"
| "lb_step rt s (ATimer r h) = timer_callback r h s"
| "lb_step rt s (AThen r) = then_callback r s"
| "lb_step rt s (ASettle i ok) = settle i ok s"

definition lb_run :: "runtime \<Rightarrow> lb_action list \<Rightarrow> LogBuffer" where
  "lb_run rt acts = foldl (lb_step rt) new_LogBuffer acts"

text \<open>
  A call of a leveled method on a logger over the buffer \<open>s\<close>: the buffer is touched only
  when the method calls \<open>collect\<close>.
\<close>

definition log_through ::
  "runtime \<Rightarrow> send_result \<Rightarrow> rat \<Rightarrow> CollectArgs option \<Rightarrow> LogBuffer \<Rightarrow> LogBuffer" where
  "log_through rt r offset call s =
     (case call of None \<Rightarrow> s | Some a \<Rightarrow> collect rt r offset a s)"

section \<open>The fan-out log transport\<close>

text \<open>
  A log transport as the buffer sees it: its optional publish rate. Rates are modelled
  as natural numbers below \<open>10^21\<close>, which \<open>Number.prototype.toString\<close> prints as plain
  decimal digits.
\<close>

record LogTransport =
  lt_publishRate :: "nat option"

text \<open>The decimal digits of a number, as UTF-16 code units.\<close>

fun Number_toString :: "nat \<Rightarrow> nat list" where
  "Number_toString n =
     (if n < 10 then [48 + n] else Number_toString (n div 10) @ [48 + n mod 10])"

declare Number_toString.simps [simp del]

text \<open>The order of strings: by code units, a proper prefix first.\<close>

fun string_less :: "nat list \<Rightarrow> nat list \<Rightarrow> bool" where
  "string_less [] [] = False"
| "string_less [] (y # ys) = True"
| "string_less (x # xs) [] = False"
| "string_less (x # xs) (y # ys) = (x < y \<or> (x = y \<and> string_less xs ys))"

text \<open>
  \<open>Array.prototype.sort()\<close> without a comparator: \<open>undefined\<close> goes last, everything else
  is compared as strings. \<open>sort_before x y\<close> says that \<open>x\<close> must come before \<open>y\<close>. The sort
  is stable.
\<close>

fun sort_before :: "nat option \<Rightarrow> nat option \<Rightarrow> bool" where
  "sort_before None _ = False"
| "sort_before (Some x) None = True"
| "sort_before (Some x) (Some y) = string_less (Number_toString x) (Number_toString y)"

fun sort_insert :: "nat option \<Rightarrow> nat option list \<Rightarrow> nat option list" where
  "sort_insert x [] = [x]"
| "sort_insert x (y # ys) = (if sort_before y x then y # sort_insert x ys else x # y # ys)"

definition Array_sort :: "nat option list \<Rightarrow> nat option list" where
  "Array_sort xs = foldr sort_insert xs []"

definition MAX_SAFE_INTEGER :: nat where
  "MAX_SAFE_INTEGER = 9007199254740991"

text \<open>
  The constructor of \<open>LogMulticaster\<close>:
  \<open>transports.map(t => t.publishRate).sort()[0] ?? Number.MAX_SAFE_INTEGER\<close>.
\<close>

definition LogMulticaster_publishRate :: "LogTransport list \<Rightarrow> nat" where
  "LogMulticaster_publishRate transports =
     (case Array_sort (map lt_publishRate transports) of
        [] \<Rightarrow> MAX_SAFE_INTEGER
      | None # _ \<Rightarrow> MAX_SAFE_INTEGER
      | Some rate # _ \<Rightarrow> rate)"

text \<open>
  \<open>LogMulticaster.sendEntries\<close>, given what each member returned: \<open>undefined\<close> when no
  member returned a promise, else one promise for all of them.
\<close>

definition LogMulticaster_sendEntries :: "send_result list \<Rightarrow> send_result" where
  "LogMulticaster_sendEntries results =
     (if length (filter (\<lambda>p. p = ReturnsPromise) results) = 0 then ReturnsUndefined
      else ReturnsPromise)"

section \<open>The event emitter\<close>

record ClientInfo =
  ci_operationId :: "string option"
  ci_clientId :: "string option"
  ci_clientIp :: "string option"
  ci_clientPort :: "nat option"
  ci_userAgent :: "string option"

record EventMetadata =
  md_topic :: string
  md_type :: string
  md_subject :: string
  md_id :: "string option"

record BufferedEvent =
  be_eventTime :: int
  be_meta :: EventMetadata
  be_ids :: ClientInfo
  be_json :: "string option"

text \<open>
  The buffer \<open>{[topic]: events}\<close>, a plain object: \<open>Object.entries\<close> lists it in the order
  of the list.
\<close>

type_synonym EmitBuffer = "(string \<times> BufferedEvent list) list"

text \<open>
  Numbers are IEEE 754 doubles. A finite double is given by its exact value. Times are
  whole milliseconds, as \<open>Date.getTime()\<close> returns them, and sums and differences of them
  are exact; a division rounds.
\<close>

datatype js_number = Finite rat | PlusInfinity | MinusInfinity | NaN

text \<open>Rounding to the nearest integer, a tie to the even one.\<close>

definition round_half_even :: "rat \<Rightarrow> int" where
  "round_half_even y =
     (let f = \<lfloor>y\<rfloor>; r = y - of_int f
      in if r < 1 / 2 then f else if 1 / 2 < r then f + 1 else if even f then f else f + 1)"

text \<open>The exponent \<open>e\<close> of a positive number \<open>x\<close>: \<open>2^e \<le> x < 2^(e+1)\<close>.\<close>

definition binade :: "rat \<Rightarrow> int" where
  "binade x =
     (case quotient_of x of
        (p, q) \<Rightarrow> (let k = bitlen p - bitlen q in if 2 powi k \<le> x then k else k - 1))"

text \<open>
  The double nearest to an exact result: 53 significant bits, the spacing of the
  subnormal numbers below \<open>2^-1022\<close>, and infinity from \<open>2^1024\<close> on.
\<close>

definition to_double :: "rat \<Rightarrow> js_number" where
  "to_double x =
     (if x = 0 then Finite 0
      else
        (let a = \<bar>x\<bar>;
             u = 2 powi (max (binade a) (- 1022) - 52);
             m = of_int (round_half_even (a / u)) * u
         in if 2 ^ 1024 \<le> m then (if 0 < x then PlusInfinity else MinusInfinity)
            else Finite (if 0 < x then m else - m)))"

text \<open>The division of two finite doubles, with what a division by zero gives.\<close>

definition js_divide :: "rat \<Rightarrow> rat \<Rightarrow> js_number" where
  "js_divide a b =
     (if b = 0 then (if a = 0 then NaN else if a > 0 then PlusInfinity else MinusInfinity)
      else to_double (a / b))"

fun js_greater :: "js_number \<Rightarrow> rat \<Rightarrow> bool" where
  "js_greater (Finite x) t = (x > t)"
| "js_greater PlusInfinity t = True"
| "js_greater MinusInfinity t = False"
| "js_greater NaN t = False"

text \<open>The test \<open>buffered / publishRate > timeLeft\<close> of \<open>emit\<close>.\<close>

definition overflow_check :: "int \<Rightarrow> rat \<Rightarrow> int \<Rightarrow> bool" where
  "overflow_check buffered publishRate timeLeft =
     js_greater (js_divide (of_int buffered) publishRate) (of_int timeLeft)"

text \<open>
  The emitter's flush chain. \<open>#flushEvents\<close> calls \<open>sendEvents\<close> once per topic, all at
  once; a round is over when each of these promises has settled (a rejection is caught
  and logged). \<open>ec_pending\<close> holds the unsettled sends of the round that runs, by promise
  number, \<open>ec_queue\<close> the buffers of the rounds chained behind it.
\<close>

record event_chain =
  ec_pending :: "(nat \<times> string \<times> BufferedEvent list) list"
  ec_queue :: "EmitBuffer list"

text \<open>
  The emitter's fields (with the publish rate of its transport), then the runtime it
  acts on: the next fresh promise number, every call of \<open>sendEvents\<close> so far, and the
  batches reported through \<open>logger.fatal\<close>.
\<close>

record EventEmitter =
  ee_publishRate :: rat
  ee_ids :: ClientInfo
  ee_emitted :: EmitBuffer
  ee_size :: nat
  ee_flusher :: "event_chain option"
  ee_deadline :: int
  ee_buffered :: int
  ee_next :: nat
  ee_sent :: "(string \<times> BufferedEvent list) list"
  ee_fatal :: "BufferedEvent list list"

text \<open>The constructor, run at time \<open>now\<close> (milliseconds).\<close>

definition new_EventEmitter :: "rat \<Rightarrow> ClientInfo \<Rightarrow> int \<Rightarrow> int \<Rightarrow> EventEmitter" where
  "new_EventEmitter publishRate ids timeout now =
     \<lparr>ee_publishRate = publishRate, ee_ids = ids, ee_emitted = [], ee_size = 0,
      ee_flusher = None, ee_deadline = now + timeout, ee_buffered = 0,
      ee_next = 0, ee_sent = [], ee_fatal = []\<rparr>"

text \<open>Starting a round: one \<open>sendEvents\<close> per topic; returns the chain head of that round.\<close>

definition flushEvents :: "EmitBuffer \<Rightarrow> EventEmitter \<Rightarrow> (nat \<times> string \<times> BufferedEvent list) list \<times> EventEmitter" where
  "flushEvents emitted s =
     (zip [ee_next s ..< ee_next s + length emitted] emitted,
      s\<lparr>ee_sent := ee_sent s @ emitted, ee_next := ee_next s + length emitted\<rparr>)"

definition ee_startFlush :: "EmitBuffer \<Rightarrow> EventEmitter \<Rightarrow> EventEmitter" where
  "ee_startFlush emitted s =
     (case ee_flusher s of
        Some c \<Rightarrow> s\<lparr>ee_flusher := Some (c\<lparr>ec_queue := ec_queue c @ [emitted]\<rparr>)\<rparr>
      | None \<Rightarrow>
          (case flushEvents emitted s of
             (pending, s') \<Rightarrow> s'\<lparr>ee_flusher := Some \<lparr>ec_pending = pending, ec_queue = []\<rparr>\<rparr>))"

text \<open>\<open>flush()\<close> returns a future that waits for \<open>#flusher\<close> as it is after the call.\<close>

definition ee_flush :: "EventEmitter \<Rightarrow> event_chain option \<times> EventEmitter" where
  "ee_flush s =
     (let s1 = ee_startFlush (ee_emitted s) s;
          s2 = s1\<lparr>ee_emitted := [], ee_size := 0\<rparr>
      in (ee_flusher s2, s2))"


text \<open>The event that an emit at time \<open>now\<close> builds, and the length it adds to the size.\<close>

definition event_of ::
  "runtime \<Rightarrow> ClientInfo \<Rightarrow> int \<times> EventMetadata \<times> json option \<Rightarrow> BufferedEvent" where
  "event_of rt ids e =
     (case e of (now, meta, data) \<Rightarrow>
        \<lparr>be_eventTime = now, be_meta = meta, be_ids = ids,
         be_json = (case data of None \<Rightarrow> None | Some d \<Rightarrow> Some (JSON_stringify rt d))\<rparr>)"

definition json_length :: "BufferedEvent \<Rightarrow> nat" where
  "json_length ev = (case be_json ev of None \<Rightarrow> 0 | Some j \<Rightarrow> length j)"

text \<open>The last two statements of \<open>emit\<close>.\<close>

definition count_event :: "BufferedEvent \<Rightarrow> EventEmitter \<Rightarrow> EventEmitter" where
  "count_event ev s =
     s\<lparr>ee_buffered := ee_buffered s + 1, ee_size := ee_size s + json_length ev\<rparr>"

datatype emit_error = EventOverflow | TypeError

text \<open>
  \<open>emit\<close>, called at time \<open>now\<close> (milliseconds; both clock readings of the method are taken
  as this one value). \<open>data\<close> is \<open>None\<close> for \<open>undefined\<close>. When the topic is the name of a
  member that the buffer inherits, \<open>events\<close> is that member and \<open>events.push\<close> raises a
  type error.
\<close>

definition emit ::
  "runtime \<Rightarrow> int \<Rightarrow> EventMetadata \<Rightarrow> json option \<Rightarrow> EventEmitter \<Rightarrow> emit_error + EventEmitter"
where
  "emit rt now meta data s =
     (let timeLeft = ee_deadline s - now
      in if overflow_check (ee_buffered s) (ee_publishRate s) timeLeft
         then Inl EventOverflow
         else
           (let event = event_of rt (ee_ids s) (now, meta, data)
            in case obj_get (ee_emitted s) (md_topic meta) of
                 Absent \<Rightarrow>
                   Inr (count_event event
                          (s\<lparr>ee_emitted := obj_set (md_topic meta) [event] (ee_emitted s)\<rparr>))
               | Inherited \<Rightarrow> Inl TypeError
               | Own events \<Rightarrow>
                   (let s' = s\<lparr>ee_emitted :=
                                 obj_set (md_topic meta) (events @ [event]) (ee_emitted s)\<rparr>
                    in Inr (count_event event
                              (if length (events @ [event]) > 64 \<or> ee_size s' > 64000
                               then snd (ee_flush s') else s')))))"

text \<open>
  No emit of a run overflows: the check of \<open>emit\<close>, made for each emit in turn with the
  pending count one higher each time (no send settles during the run).
\<close>

fun admitted :: "rat \<Rightarrow> int \<Rightarrow> int \<Rightarrow> (int \<times> EventMetadata \<times> json option) list \<Rightarrow> bool" where
  "admitted R deadline b [] = True"
| "admitted R deadline b (e # es) =
     (\<not> overflow_check b R (deadline - fst e) \<and> admitted R deadline (b + 1) es)"

text \<open>A run of emits one after the other; it stops at the first overflow.\<close>

fun emit_all ::
  "runtime \<Rightarrow> (int \<times> EventMetadata \<times> json option) list \<Rightarrow> EventEmitter \<Rightarrow> emit_error + EventEmitter"
where
  "emit_all rt [] s = Inr s"
| "emit_all rt ((now, meta, data) # es) s =
     (case emit rt now meta data s of
        Inl e \<Rightarrow> Inl e
      | Inr s' \<Rightarrow> emit_all rt es s')"

text \<open>
  The transport settles the promise \<open>i\<close> of a \<open>sendEvents\<close> call: a rejection is logged
  as fatal with the batch, and the pending count goes down by the batch's length
  either way.
\<close>

definition ee_settle :: "nat \<Rightarrow> bool \<Rightarrow> EventEmitter \<Rightarrow> EventEmitter" where
  "ee_settle i ok s =
     (case ee_flusher s of
        None \<Rightarrow> s
      | Some c \<Rightarrow>
          (case map_of (ec_pending c) i of
             None \<Rightarrow> s
           | Some (topic, events) \<Rightarrow>
               s\<lparr>ee_flusher := Some (c\<lparr>ec_pending := filter (\<lambda>p. fst p \<noteq> i) (ec_pending c)\<rparr>),
                 ee_fatal := (if ok then ee_fatal s else ee_fatal s @ [events]),
                 ee_buffered := ee_buffered s - int (length events)\<rparr>))"

text \<open>When a round is over, the next chained round starts.\<close>

definition ee_next_round :: "EventEmitter \<Rightarrow> EventEmitter" where
  "ee_next_round s =
     (case ee_flusher s of
        None \<Rightarrow> s
      | Some c \<Rightarrow>
          (case ec_queue c of
             [] \<Rightarrow> s
           | emitted # q \<Rightarrow>
               if ec_pending c \<noteq> [] then s
               else
                 (case flushEvents emitted s of
                    (pending, s') \<Rightarrow>
                      s'\<lparr>ee_flusher := Some \<lparr>ec_pending = pending, ec_queue = q\<rparr>\<rparr>)))"

section \<open>The request context\<close>

record EventTransport =
  et_publishRate :: rat

record HandlerConfiguration =
  hc_timeout :: "int option"
  hc_minimumLogLevel :: "LogLevel option"

record Metadata =
  mt_packageName :: string
  mt_fileName :: string
  mt_revision :: "string option"
  mt_config :: "HandlerConfiguration option"

record Timeouts =
  to_default :: int
  to_cap :: "int option"

text \<open>
  What \<open>createContext\<close> builds: the logger it returns, the logger of the context object,
  the transport and the fresh buffer behind them, the emitter, the identity fields of the
  context and the timeout in milliseconds.
\<close>

record CreatedContext =
  cc_log :: EnrichingLogger
  cc_context_log :: EnrichingLogger
  cc_logTransport :: LogTransport
  cc_buffer :: LogBuffer
  cc_emitter :: EventEmitter
  cc_operationId :: "string option"
  cc_client :: object
  cc_timeout :: int

definition opt_str :: "string option \<Rightarrow> json" where
  "opt_str x = (case x of None \<Rightarrow> JUndefined | Some v \<Rightarrow> JStr v)"

definition client_object :: "ClientInfo \<Rightarrow> object" where
  "client_object ci =
     [(''id'', opt_str (ci_clientId ci)),
      (''ip'', opt_str (ci_clientIp ci)),
      (''port'', (case ci_clientPort ci of None \<Rightarrow> JUndefined | Some n \<Rightarrow> JNum (of_nat n))),
      (''userAgent'', opt_str (ci_userAgent ci))]"

text \<open>The object that \<open>createContext\<close> passes to \<open>enrichReserved\<close>.\<close>

definition client_enrichment :: "ClientInfo \<Rightarrow> object" where
  "client_enrichment ci =
     [(''operationId'', opt_str (ci_operationId ci)),
      (''client'', JObj (client_object ci))]"

definition config_timeout :: "Metadata option \<Rightarrow> int option" where
  "config_timeout meta =
     (case meta of None \<Rightarrow> None
      | Some m \<Rightarrow> (case mt_config m of None \<Rightarrow> None | Some c \<Rightarrow> hc_timeout c))"

definition config_minimumLogLevel :: "Metadata option \<Rightarrow> LogLevel option" where
  "config_minimumLogLevel meta =
     (case meta of None \<Rightarrow> None
      | Some m \<Rightarrow> (case mt_config m of None \<Rightarrow> None | Some c \<Rightarrow> hc_minimumLogLevel c))"

text \<open>
  \<open>createContext\<close> at time \<open>now\<close>. The logger is made, \<open>enrichReserved\<close> is called on it and
  its result is dropped, and the logger itself goes into the context and the result.
  Timeouts are whole seconds. The two deadline timers are left out.
\<close>

definition createContext ::
  "ClientInfo \<Rightarrow> LogTransport list \<Rightarrow> EventTransport \<Rightarrow> Timeouts \<Rightarrow> object \<Rightarrow> Metadata option
     \<Rightarrow> int \<Rightarrow> CreatedContext"
where
  "createContext clientInfo loggers eventTransport timeouts outerSignal meta now =
     (let base = (case config_timeout meta of Some t \<Rightarrow> t | None \<Rightarrow> to_default timeouts);
          timeout = (case to_cap timeouts of
                       None \<Rightarrow> base
                     | Some cap \<Rightarrow> if cap \<noteq> 0 then min base cap else base) * 1000;
          logTransport = (case loggers of
                            [l] \<Rightarrow> l
                          | _ \<Rightarrow> \<lparr>lt_publishRate = Some (LogMulticaster_publishRate loggers)\<rparr>);
          logger = makeLogger (config_minimumLogLevel meta) outerSignal;
          dropped = enrichReserved logger (client_enrichment clientInfo);
          emitter = new_EventEmitter (et_publishRate eventTransport) clientInfo timeout now
      in \<lparr>cc_log = logger, cc_context_log = logger, cc_logTransport = logTransport,
          cc_buffer = new_LogBuffer, cc_emitter = emitter,
          cc_operationId = ci_operationId clientInfo,
          cc_client = client_object clientInfo,
          cc_timeout = timeout\<rparr>)"

section \<open>Invariants of the log buffer\<close>










section \<open>Sample inputs\<close>

text \<open>
  A runtime for the worked examples: every theorem below holds for any serializer and
  any date format, and the examples fix one of each. This serializer puts a string in
  double quotes, which is its JSON text when no character needs an escape, and stands
  in \<open>{}\<close> for every other value.
\<close>

definition sample_runtime :: runtime where
  "sample_runtime =
     \<lparr>JSON_stringify = (\<lambda>j. case j of JStr str \<Rightarrow> [CHR 0x22] @ str @ [CHR 0x22] | _ \<Rightarrow> ''{}''),
      isoDate = (\<lambda>t. ''1970-01-01T00:00:00.0000000Z'')\<rparr>"

text \<open>The double nearest to 0.3.\<close>

definition point_three :: rat where
  "point_three = 5404319552844595 / 18014398509481984"

definition sample_ids :: ClientInfo where
  "sample_ids =
     \<lparr>ci_operationId = Some ''op-1'', ci_clientId = Some ''client-1'',
      ci_clientIp = Some ''10.0.0.1'', ci_clientPort = Some 443,
      ci_userAgent = Some ''curl''\<rparr>"

definition sample_meta :: EventMetadata where
  "sample_meta =
     \<lparr>md_topic = ''orders'', md_type = ''created'', md_subject = ''order-1'', md_id = None\<rparr>"

definition sample_event :: BufferedEvent where
  "sample_event =
     \<lparr>be_eventTime = 0, be_meta = sample_meta, be_ids = sample_ids, be_json = None\<rparr>"

text \<open>
  An emitter with publish rate 1 and deadline 1000 ms that holds two events, as two
  emits at time 0 leave it.
\<close>

definition two_pending :: EventEmitter where
  "two_pending =
     \<lparr>ee_publishRate = 1, ee_ids = sample_ids,
      ee_emitted = [(''orders'', [sample_event, sample_event])], ee_size = 0,
      ee_flusher = None, ee_deadline = 1000, ee_buffered = 2,
      ee_next = 0, ee_sent = [], ee_fatal = []\<rparr>"

text \<open>
  A context for the client \<open>sample_ids\<close>, with one log transport, a native abort signal
  and no metadata.
\<close>

definition sample_context :: CreatedContext where
  "sample_context =
     createContext sample_ids [\<lparr>lt_publishRate = None\<rparr>] \<lparr>et_publishRate = 1000\<rparr>
       \<lparr>to_default = 30, to_cap = None\<rparr> [] None 0"

text \<open>What \<open>info('hello')\<close> passes to \<open>collect\<close> on a root logger.\<close>

definition sample_call :: CollectArgs where
  "sample_call = collect_args Debug 3 (makeLogger None []) ''hello'' VUndefined None"

text \<open>The emitter after one emit at time 0, and after a flush that follows it.\<close>

definition one_pending :: EventEmitter where
  "one_pending =
     \<lparr>ee_publishRate = 1, ee_ids = sample_ids,
      ee_emitted = [(''orders'', [sample_event])], ee_size = 0,
      ee_flusher = None, ee_deadline = 1000, ee_buffered = 1,
      ee_next = 0, ee_sent = [], ee_fatal = []\<rparr>"

definition one_in_flight :: EventEmitter where
  "one_in_flight =
     \<lparr>ee_publishRate = 1, ee_ids = sample_ids,
      ee_emitted = [], ee_size = 0,
      ee_flusher = Some \<lparr>ec_pending = [(0, ''orders'', [sample_event])], ec_queue = []\<rparr>,
      ee_deadline = 1000, ee_buffered = 1,
      ee_next = 1, ee_sent = [(''orders'', [sample_event])], ee_fatal = []\<rparr>"

text \<open>
  A buffer whose first entry was sent by the \<open>setImmediate\<close> callback, the send not yet
  settled.
\<close>

definition sent_not_settled :: LogBuffer where
  "sent_not_settled =
     lb_run sample_runtime [ACollect ReturnsPromise 0 sample_call, AImmediate ReturnsPromise]"

text \<open>
  The buffer \<open>sent_not_settled\<close>, in batching mode, after two more \<open>info\<close> entries at
  100 ms and at 1100 ms.
\<close>

definition two_timers :: LogBuffer where
  "two_timers =
     collect sample_runtime ReturnsPromise 1100 sample_call
       (collect sample_runtime ReturnsPromise 100 sample_call sent_not_settled)"

text \<open>
  A payload of 63999 letters, whose JSON text has 64001 characters, the event that
  carries it, and a run of 65 emits to one topic that starts with it.
\<close>

definition big_payload :: string where
  "big_payload = replicate 63999 (CHR ''x'')"

definition big_event :: BufferedEvent where
  "big_event =
     \<lparr>be_eventTime = 0, be_meta = sample_meta, be_ids = sample_ids,
      be_json = Some ([CHR 0x22] @ big_payload @ [CHR 0x22])\<rparr>"

definition big_first :: "(int \<times> EventMetadata \<times> json option) list" where
  "big_first =
     (0, sample_meta, Some (JStr big_payload)) # (0, sample_meta, None) # (0, sample_meta, None)
       # replicate 62 (0, sample_meta, None)"

definition after_big_first :: EventEmitter where
  "after_big_first =
     \<lparr>ee_publishRate = 1000, ee_ids = sample_ids,
      ee_emitted = [(''orders'', replicate 63 sample_event)], ee_size = 0,
      ee_flusher = Some \<lparr>ec_pending = [(0, ''orders'', [big_event, sample_event])],
                         ec_queue = []\<rparr>,
      ee_deadline = 30000, ee_buffered = 65,
      ee_next = 1, ee_sent = [(''orders'', [big_event, sample_event])], ee_fatal = []\<rparr>"





section \<open>Rounded division\<close>

lemma round_half_even_near: "\<bar>of_int (round_half_even y) - y\<bar> \<le> 1 / 2"
proof -
  have "of_int \<lfloor>y\<rfloor> \<le> y" "y < of_int \<lfloor>y\<rfloor> + 1" by linarith+
  then show ?thesis
    by (auto simp: round_half_even_def Let_def)
qed

lemma round_half_even_int: "round_half_even (of_int k) = k"
  by (simp add: round_half_even_def)

lemma of_int_bitlen_bounds:
  assumes "0 < p"
  shows "(2::rat) powi (bitlen p - 1) \<le> of_int p" "of_int p < (2::rat) powi (bitlen p)"
proof -
  from assms have b: "2 ^ nat (bitlen p - 1) \<le> p" "p < 2 ^ nat (bitlen p)"
    using bitlen_bounds [of p] by auto
  from assms have pos: "1 \<le> bitlen p"
    using bitlen_eq_zero_iff [of p] bitlen_nonneg [of p] by linarith
  have "(2::rat) powi (bitlen p - 1) = of_int (2 ^ nat (bitlen p - 1))"
    using pos by (simp add: power_int_nonneg_exp)
  also have "\<dots> \<le> of_int p" using b(1) by (simp only: of_int_le_iff)
  finally show "(2::rat) powi (bitlen p - 1) \<le> of_int p" .
  have "(of_int p :: rat) < of_int (2 ^ nat (bitlen p))" using b(2) by (simp only: of_int_less_iff)
  also have "\<dots> = 2 powi (bitlen p)"
    using pos by (simp add: power_int_nonneg_exp)
  finally show "of_int p < (2::rat) powi (bitlen p)" .
qed

lemma binade_bounds:
  assumes "0 < x"
  shows "2 powi (binade x) \<le> x" "x < 2 powi (binade x + 1)"
proof -
  obtain p q where pq: "quotient_of x = (p, q)" by (cases "quotient_of x") auto
  then have q: "0 < q" and x: "x = of_int p / of_int q"
    using quotient_of_denom_pos [of x p q] quotient_of_div [of x p q] by auto
  from assms x q have p: "0 < p"
    by (simp add: zero_less_divide_iff)
  let ?k = "bitlen p - bitlen q"
  note bp = of_int_bitlen_bounds [OF p] and bq = of_int_bitlen_bounds [OF q]
  have qpos: "(0::rat) < of_int q" using q by simp
  have up: "x < 2 powi (?k + 1)"
  proof -
    have "x < 2 powi (bitlen p) / of_int q"
      unfolding x using bp(2) qpos by (simp add: divide_strict_right_mono)
    also have "\<dots> \<le> 2 powi (bitlen p) / 2 powi (bitlen q - 1)"
      using bq(1) qpos by (intro divide_left_mono) (simp_all add: zero_less_mult_iff)
    also have "\<dots> = 2 powi (?k + 1)"
      by (simp add: power_int_diff [symmetric] algebra_simps)
    finally show ?thesis .
  qed
  have low: "2 powi (?k - 1) \<le> x"
  proof -
    have "(2::rat) powi (?k - 1) = 2 powi (bitlen p - 1) / 2 powi (bitlen q)"
      by (simp add: power_int_diff [symmetric] algebra_simps)
    also have "\<dots> \<le> of_int p / 2 powi (bitlen q)"
      using bp(1) by (intro divide_right_mono) simp_all
    also have "\<dots> \<le> of_int p / of_int q"
      using bq(2) p qpos by (intro divide_left_mono) simp_all
    finally show ?thesis by (simp add: x)
  qed
  show "2 powi (binade x) \<le> x"
    using low by (simp add: binade_def pq Let_def)
  show "x < 2 powi (binade x + 1)"
    using up by (auto simp: binade_def pq Let_def not_le)
qed


lemma powi_exp_less:
  assumes "(2::rat) powi a < 2 powi b"
  shows "a < b"
proof (rule ccontr)
  assume "\<not> a < b"
  then have "b \<le> a" by simp
  then have "(2::rat) powi b \<le> 2 powi a" by (intro power_int_increasing) simp_all
  with assms show False by simp
qed

lemma scaled_near:
  fixes n x u :: rat
  assumes "0 < u" and "\<bar>n - x / u\<bar> \<le> 1 / 2"
  shows "\<bar>n * u - x\<bar> \<le> u / 2"
proof -
  have "n * u - x = (n - x / u) * u"
    using assms(1) by (simp add: algebra_simps)
  then have "\<bar>n * u - x\<bar> = \<bar>n - x / u\<bar> * u"
    using assms(1) by (simp add: abs_mult)
  also have "\<dots> \<le> (1 / 2) * u"
    using assms by (intro mult_right_mono) simp_all
  finally show ?thesis by simp
qed

lemma to_double_normal:
  assumes "0 < x" and "- 1022 \<le> binade x"
    and "of_int (round_half_even (x / 2 powi (binade x - 52))) * 2 powi (binade x - 52)
           < (2::rat) ^ 1024"
  shows "to_double x
           = Finite (of_int (round_half_even (x / 2 powi (binade x - 52)))
                       * 2 powi (binade x - 52))"
proof -
  define m where
    "m = of_int (round_half_even (x / 2 powi (binade x - 52))) * (2::rat) powi (binade x - 52)"
  have a: "\<bar>x\<bar> = x" and mx: "max (binade x) (- 1022) = binade x"
    using assms(1,2) by simp_all
  have small: "\<not> 2 ^ 1024 \<le> m"
    using assms(3) unfolding m_def [symmetric] by simp
  have "to_double x = Finite m"
    unfolding to_double_def Let_def a mx m_def [symmetric]
    using assms(1) small by simp
  then show ?thesis by (simp only: m_def)
qed

lemma to_double_quotient:
  assumes b: "0 < b" "b < 2 ^ 53" and R: "0 < R" "R < 2 ^ 53"
  obtains m where "to_double (of_int b / of_int R) = Finite m"
    and "\<bar>m - of_int b / of_int R\<bar> < 1 / of_int R"
    and "b = R * D \<Longrightarrow> m = of_int D"
proof -
  let ?x = "of_int b / of_int R :: rat"
  have Rpos: "(0::rat) < of_int R" using R by simp
  have xpos: "0 < ?x" using b R by simp
  let ?e = "binade ?x"
  note bnd = binade_bounds [OF xpos]
  have x_le_b: "?x \<le> of_int b"
  proof -
    have "(1::rat) \<le> of_int R" using R by simp
    then have "of_int b / of_int R \<le> (of_int b :: rat) / 1"
      using b by (intro divide_left_mono) simp_all
    then show ?thesis by simp
  qed
  have b53: "(of_int b :: rat) < 2 ^ 53"
    using b(2) by (metis of_int_less_iff of_int_numeral of_int_power)
  have R53: "(of_int R :: rat) < 2 ^ 53"
    using R(2) by (metis of_int_less_iff of_int_numeral of_int_power)
  have x_ge: "1 / 2 ^ 53 < ?x"
  proof -
    have "(1::rat) / 2 ^ 53 < 1 / of_int R"
      using R53 Rpos by (simp add: frac_less2)
    also have "\<dots> \<le> ?x"
      using b Rpos by (intro divide_right_mono) simp_all
    finally show ?thesis .
  qed
  have e_hi: "?e < 53"
  proof -
    have "(2::rat) powi ?e < 2 powi 53"
      using bnd(1) x_le_b b53 by simp
    then show ?thesis by (rule powi_exp_less)
  qed
  have e_lo: "- 54 < ?e"
  proof -
    have "(2::rat) powi (- 53) = 1 / 2 ^ 53"
      by (simp add: power_int_minus_divide)
    also note x_ge
    also note bnd(2)
    finally have "- 53 < ?e + 1" by (rule powi_exp_less)
    then show ?thesis by simp
  qed
  let ?u = "(2::rat) powi (?e - 52)"
  have upos: "0 < ?u" by simp
  have u_eq: "?u = 2 powi ?e / 2 ^ 52"
    by (simp add: power_int_diff)
  let ?n = "round_half_even (?x / ?u)"
  let ?m = "of_int ?n * ?u"
  have near: "\<bar>?m - ?x\<bar> \<le> ?u / 2"
    using upos round_half_even_near [of "?x / ?u"] by (rule scaled_near)
  have half_u: "?u / 2 < 1 / of_int R"
  proof -
    have "?u / 2 = 2 powi ?e / 2 ^ 53" by (simp add: u_eq)
    also have "\<dots> \<le> ?x / 2 ^ 53"
      using bnd(1) by (intro divide_right_mono) simp_all
    also have "\<dots> = (of_int b / 2 ^ 53) / of_int R" by simp
    also have "\<dots> < 1 / of_int R"
      using b53 Rpos by (intro divide_strict_right_mono) simp_all
    finally show ?thesis .
  qed
  have close: "\<bar>?m - ?x\<bar> < 1 / of_int R"
    using near half_u by linarith
  have small: "?m < 2 ^ 1024"
  proof -
    have "?m < ?x + 1 / of_int R" using close by linarith
    also have "\<dots> \<le> of_int b + 1"
    proof -
      have "(1::rat) / of_int R \<le> 1" using R by simp
      with x_le_b show ?thesis by linarith
    qed
    also have "\<dots> < 2 ^ 53 + 1" using b53 by simp
    also have "\<dots> < (2::rat) ^ 1024" by simp
    finally show ?thesis .
  qed
  have "- 1022 \<le> ?e" using e_lo by simp
  with xpos have td: "to_double ?x = Finite ?m"
    using small by (rule to_double_normal)
  have exact: "?m = of_int D" if eq: "b = R * D"
  proof -
    have xD: "?x = of_int D" using eq Rpos by simp
    have "?x / ?u = of_int D * 2 powi (52 - ?e)"
      by (simp add: xD power_int_diff)
    also have "\<dots> = of_int (D * 2 ^ nat (52 - ?e))"
      using e_hi by (simp add: power_int_nonneg_exp)
    finally have "?x / ?u = of_int (D * 2 ^ nat (52 - ?e))" .
    then have "of_int ?n = ?x / ?u"
      by (simp only: round_half_even_int)
    then have "?m = ?x" using upos by simp
    then show ?thesis by (simp add: xD)
  qed
  show thesis
    using that [OF td close] exact by blast
qed

lemma double_quotient_threshold:
  assumes b: "0 \<le> b" "b < 2 ^ 53" and R: "0 < R" "R < 2 ^ 53"
  shows "js_greater (to_double (of_int b / of_int R)) (of_int D) = (R * D < b)"
proof (cases "b = 0")
  case True
  then show ?thesis
    using R by (simp add: to_double_def mult_less_0_iff)
next
  case False
  with b have bpos: "0 < b" by simp
  have Rpos: "(0::rat) < of_int R" using R by simp
  obtain m where td: "to_double (of_int b / of_int R) = Finite m"
    and close: "\<bar>m - of_int b / of_int R\<bar> < 1 / of_int R"
    and exact: "b = R * D \<Longrightarrow> m = of_int D"
    using to_double_quotient [OF bpos b(2) R, of D] by blast
  have lo: "(of_int b - 1) / of_int R < m" and hi: "m < (of_int b + 1) / of_int R"
    using close by (simp_all add: diff_divide_distrib add_divide_distrib abs_less_iff)
  consider (eq) "b = R * D" | (gt) "R * D < b" | (lt) "b < R * D" by linarith
  then show ?thesis
  proof cases
    case eq
    then show ?thesis using exact td by simp
  next
    case gt
    then have "R * D \<le> b - 1" by simp
    then have "(of_int (R * D) :: rat) \<le> of_int (b - 1)" by (simp only: of_int_le_iff)
    then have "(of_int D :: rat) * of_int R \<le> of_int b - 1" by (simp add: mult.commute)
    then have "(of_int D :: rat) \<le> (of_int b - 1) / of_int R"
      using Rpos by (simp add: pos_le_divide_eq)
    with lo gt show ?thesis by (simp add: td)
  next
    case lt
    then have "b + 1 \<le> R * D" by simp
    then have "(of_int (b + 1) :: rat) \<le> of_int (R * D)" by (simp only: of_int_le_iff)
    then have "of_int b + 1 \<le> (of_int D :: rat) * of_int R" by (simp add: mult.commute)
    then have "(of_int b + 1) / of_int R \<le> (of_int D :: rat)"
      using Rpos by (simp add: pos_divide_le_eq)
    with hi lt show ?thesis by (simp add: td)
  qed
qed


lemma binade_unique:
  assumes "0 < x" and "2 powi e \<le> x" and "x < 2 powi (e + 1)"
  shows "binade x = e"
proof -
  note bnd = binade_bounds [OF assms(1)]
  have "(2::rat) powi e < 2 powi (binade x + 1)" using assms(2) bnd(2) by simp
  then have "e < binade x + 1" by (rule powi_exp_less)
  moreover have "(2::rat) powi (binade x) < 2 powi (e + 1)" using assms(3) bnd(1) by simp
  then have "binade x < e + 1" by (rule powi_exp_less)
  ultimately show ?thesis by simp
qed

lemma round_half_even_unique:
  assumes "\<bar>y - of_int k\<bar> < 1 / 2"
  shows "round_half_even y = k"
proof (cases "of_int k \<le> y")
  case True
  with assms have "\<lfloor>y\<rfloor> = k" by (intro floor_unique) (simp_all add: abs_less_iff)
  with assms True show ?thesis
    by (simp add: round_half_even_def Let_def abs_less_iff)
next
  case False
  with assms have "\<lfloor>y\<rfloor> = k - 1" by (intro floor_unique) (simp_all add: abs_less_iff)
  with assms False show ?thesis
    by (simp add: round_half_even_def Let_def abs_less_iff)
qed

text \<open>
  The quotient of 3 by the double nearest to 0.3 is a little more than 10 and rounds to
  10.
\<close>

lemma three_by_point_three: "to_double (3 / point_three) = Finite 10"
proof -
  let ?x = "3 / point_three"
  have pos: "0 < ?x" by (simp add: point_three_def)
  have b: "binade ?x = 3"
    by (rule binade_unique) (simp_all add: point_three_def)
  have r: "round_half_even (?x / 2 powi (3 - 52)) = 5629499534213120"
    by (rule round_half_even_unique) (simp add: point_three_def power_int_minus_divide)
  have small: "of_int (round_half_even (?x / 2 powi (binade ?x - 52))) * 2 powi (binade ?x - 52)
                 < (2::rat) ^ 1024"
    unfolding b r by (simp add: power_int_minus_divide)
  have normal: "- 1022 \<le> binade ?x" by (simp add: b)
  have "to_double ?x = Finite (of_int (round_half_even (?x / 2 powi (binade ?x - 52)))
                       * 2 powi (binade ?x - 52))"
    using pos normal small by (rule to_double_normal)
  then show ?thesis
    unfolding b r by (simp add: power_int_minus_divide)
qed

section \<open>The overflow check of the emitter\<close>

lemma overflow_check_int:
  assumes "0 \<le> b" "b < 2 ^ 53" "0 < R" "R < 2 ^ 53"
  shows "overflow_check b (of_int R) D = (R * D < b)"
  using assms double_quotient_threshold [OF assms, of D]
  by (simp add: overflow_check_def js_divide_def)

lemma emit_overflows: "(emit rt now meta data s = Inl EventOverflow)
    = overflow_check (ee_buffered s) (ee_publishRate s) (ee_deadline s - now)"
  by (simp add: emit_def Let_def split: property.splits)

text \<open>
  C1, as the code has it. When the publish rate is a positive whole number \<open>R\<close>, the
  pending count and \<open>R\<close> are below \<open>2^53\<close> and \<open>D\<close> milliseconds are left, \<open>emit\<close> raises the
  overflow error exactly when the pending count exceeds \<open>R * D\<close>: the check compares the
  rounded quotient \<open>pending / R\<close> with the milliseconds left, without a factor of 1000.
\<close>

theorem emit_overflow_threshold:
  assumes "ee_publishRate s = of_int R" and "0 < R" and "R < 2 ^ 53"
    and "0 \<le> ee_buffered s" and "ee_buffered s < 2 ^ 53"
  shows "(emit rt now meta data s = Inl EventOverflow)
           = (R * (ee_deadline s - now) < ee_buffered s)"
  using assms by (simp add: emit_overflows overflow_check_int)

text \<open>
  At rate 1 with 1000 ms left, the emit with 1001 events pending overflows and the one
  with 1000 pending does not.
\<close>

theorem emit_overflow_threshold_witness:
  "ee_publishRate (two_pending\<lparr>ee_buffered := 1001\<rparr>) = of_int 1
   \<and> (0::int) \<le> ee_buffered (two_pending\<lparr>ee_buffered := 1001\<rparr>)
   \<and> ee_buffered (two_pending\<lparr>ee_buffered := 1001\<rparr>) < 2 ^ 53
   \<and> emit sample_runtime 0 sample_meta None (two_pending\<lparr>ee_buffered := 1001\<rparr>)
       = Inl EventOverflow
   \<and> emit sample_runtime 0 sample_meta None (two_pending\<lparr>ee_buffered := 1000\<rparr>)
       \<noteq> Inl EventOverflow"
  using emit_overflow_threshold
      [of "two_pending\<lparr>ee_buffered := 1001\<rparr>" 1 sample_runtime 0 sample_meta None]
    emit_overflow_threshold
      [of "two_pending\<lparr>ee_buffered := 1000\<rparr>" 1 sample_runtime 0 sample_meta None]
  by (simp add: two_pending_def)

lemmas overflow_check_examples =
  overflow_check_int [of 0 1 1000, simplified]
  overflow_check_int [of 1 1 1000, simplified]
  overflow_check_int [of 2 1 1000, simplified]
  overflow_check_int [of 0 1000 30000, simplified]
  overflow_check_int [of 1 1000 30000, simplified]
  overflow_check_int [of 2 1000 30000, simplified]

text \<open>
  With the double nearest to 0.3 as the rate, 10 ms left and 3 events pending, the
  quotient rounds to 10 and the check lets the emit pass, although 3 exceeds the exact
  product of the rate and the time left.
\<close>

lemma check_at_point_three:
  "\<not> overflow_check 3 point_three 10 \<and> point_three * 10 < 3"
  using three_by_point_three
  by (simp add: overflow_check_def js_divide_def) (simp add: point_three_def)

text \<open>
  C1 as stated fails: after two emits at rate 1 with 1000 ms left the pending count 2
  exceeds \<open>R * D / 1000 = 1\<close>, and the third emit is accepted. And at the rate 0.3 with
  10 ms left, the check lets an emit pass with 3 events pending, more than \<open>R * D / 1000\<close>
  and more than \<open>R * D\<close>.
\<close>

theorem emit_overflow_counterexample:
  "emit_all sample_runtime [(0, sample_meta, None), (0, sample_meta, None)]
       (new_EventEmitter 1 sample_ids 1000 0) = Inr two_pending
   \<and> ee_publishRate two_pending * of_int (ee_deadline two_pending - 0) / 1000
         < of_int (ee_buffered two_pending)
   \<and> emit sample_runtime 0 sample_meta None two_pending \<noteq> Inl EventOverflow
   \<and> \<not> overflow_check 3 point_three 10
   \<and> point_three * 10 / 1000 < 3
   \<and> point_three * 10 < 3"
proof -
  have run: "emit_all sample_runtime [(0, sample_meta, None), (0, sample_meta, None)]
       (new_EventEmitter 1 sample_ids 1000 0) = Inr two_pending
   \<and> ee_publishRate two_pending * of_int (ee_deadline two_pending - 0) / 1000
         < of_int (ee_buffered two_pending)
   \<and> emit sample_runtime 0 sample_meta None two_pending \<noteq> Inl EventOverflow"
    by (simp add: emit_def Let_def new_EventEmitter_def two_pending_def sample_event_def
        sample_meta_def overflow_check_examples obj_get_def obj_set_def
        Object_prototype_keys_def event_of_def count_event_def json_length_def)
  have "point_three * 10 / 1000 < 3"
    by (simp add: point_three_def)
  then show ?thesis
    using run check_at_point_three by simp
qed

section \<open>The publish rate of the fan-out transport\<close>

lemma Number_toString_small: "n < 10 \<Longrightarrow> Number_toString n = [48 + n]"
  by (simp add: Number_toString.simps)

lemma Number_toString_large:
  "\<not> n < 10 \<Longrightarrow> Number_toString n = Number_toString (n div 10) @ [48 + n mod 10]"
  by (subst Number_toString.simps) simp

text \<open>
  C2 at members with rates 9 and 10: the sort without a comparator compares \<open>"9"\<close> and
  \<open>"10"\<close> as strings, \<open>"10"\<close> comes first, and the fan-out rate is 10, not the minimum 9.
\<close>

theorem multicaster_rate_is_not_the_minimum:
  "LogMulticaster_publishRate [\<lparr>lt_publishRate = Some 9\<rparr>, \<lparr>lt_publishRate = Some 10\<rparr>] = 10
   \<and> Min (set [9, 10]) = (9::nat)"
  by (simp add: LogMulticaster_publishRate_def Array_sort_def Number_toString_small
      Number_toString_large)

section \<open>The logger of a new context\<close>

text \<open>
  C3 at the client \<open>sample_ids\<close>: the logger in the context is the one \<open>makeLogger\<close>
  returned, its reserved enrichment is the abort signal (which has no property of its
  own), and the record object of its \<open>error('Timeout.')\<close> has the keys \<open>timestamp\<close>,
  \<open>level\<close>, \<open>message\<close> and \<open>error\<close> only, no \<open>operationId\<close> and no \<open>client\<close>. The logger
  that \<open>enrichReserved\<close> returned, which has them, is not used.
\<close>

theorem createContext_drops_client_enrichment:
  "el_reservedEnrichment (cc_context_log sample_context) = Some []
   \<and> cc_log sample_context = cc_context_log sample_context
   \<and> logger_error (cc_context_log sample_context) ''Timeout.'' VUndefined None
       = Some (collect_args Error 1 (makeLogger None []) ''Timeout.'' VUndefined None)
   \<and> map fst (log_record rt offset
        (collect_args Error 1 (makeLogger None []) ''Timeout.'' VUndefined None))
       = [''timestamp'', ''level'', ''message'', ''error'']
   \<and> el_reservedEnrichment (enrichReserved (makeLogger None []) (client_enrichment sample_ids))
       = Some (client_enrichment sample_ids)"
  by (simp add: sample_context_def createContext_def Let_def makeLogger_def
      config_minimumLogLevel_def logger_error_def collect_args_def log_record_def
      spread_opt_def spread_def enrichReserved_def client_enrichment_def obj_set_def
      array_index_def digit_value_def)

section \<open>Level names and the severity gate\<close>

text \<open>
  C4 at \<open>info('hello')\<close> and \<open>warn('hello')\<close> on a root logger: both pass the gate, and the
  \<open>level\<close> field of the record is \<open>"debug"\<close> in both.
\<close>

theorem info_and_warn_records_say_debug:
  "map_option (\<lambda>a. map_of (log_record rt offset a) ''level'')
       (logger_info (makeLogger None []) ''hello'' VUndefined None)
     = Some (Some (JStr ''debug''))
   \<and> map_option (\<lambda>a. map_of (log_record rt offset a) ''level'')
       (logger_warn (makeLogger None []) ''hello'' VUndefined None)
     = Some (Some (JStr ''debug''))"
  by (simp add: logger_info_def logger_warn_def makeLogger_def collect_args_def
      log_record_def spread_opt_def spread_def)

lemmas logger_defs =
  logger_trace_def logger_debug_def logger_info_def logger_warn_def logger_error_def
  logger_fatal_def

text \<open>
  C5. On a logger made with minimum level \<open>T\<close>, the method for level \<open>L\<close> calls \<open>collect\<close>
  (with the numeric level of \<open>L\<close>) if \<open>L\<close> is at least as severe as \<open>T\<close>, and otherwise
  returns without calling it, leaving the buffer as it was; \<open>fatal\<close> always calls it,
  and without a configured minimum every method does.
\<close>

theorem severity_gate:
  "(severity T \<le> severity L \<longrightarrow>
      (\<exists>a. logger_method L (makeLogger (Some T) sig) message err flds = Some a
           \<and> ca_numericLogLevel a = level_index L
           \<and> log_through rt r offset
                (logger_method L (makeLogger (Some T) sig) message err flds) s
               = collect rt r offset a s))
   \<and> (\<not> severity T \<le> severity L \<longrightarrow>
        logger_method L (makeLogger (Some T) sig) message err flds = None
        \<and> log_through rt r offset
             (logger_method L (makeLogger (Some T) sig) message err flds) s
            = s)
   \<and> logger_method Fatal (makeLogger (Some T) sig) message err flds \<noteq> None
   \<and> logger_method L (makeLogger None sig) message err flds \<noteq> None"
  by (cases T; cases L; simp add: makeLogger_def logger_defs collect_args_def log_through_def)

text \<open>With minimum level warning, \<open>error\<close> is forwarded and \<open>info\<close> is not.\<close>

theorem severity_gate_witness:
  "severity Warning \<le> severity Error
   \<and> logger_method Error (makeLogger (Some Warning) []) ''m'' VUndefined None \<noteq> None
   \<and> \<not> severity Warning \<le> severity Info
   \<and> logger_method Info (makeLogger (Some Warning) []) ''m'' VUndefined None = None
   \<and> log_through sample_runtime ReturnsPromise 0
        (logger_method Info (makeLogger (Some Warning) []) ''m'' VUndefined None) new_LogBuffer
       = new_LogBuffer"
  using severity_gate
      [of Warning Error "[]" "''m''" VUndefined None sample_runtime ReturnsPromise 0 new_LogBuffer]
    severity_gate
      [of Warning Info "[]" "''m''" VUndefined None sample_runtime ReturnsPromise 0 new_LogBuffer]
  by auto

section \<open>Flushing with nothing pending\<close>




lemma sent_not_settled_eq:
  "sent_not_settled =
     \<lparr>lb_entries = [], lb_size = 0,
      lb_flusher = Some \<lparr>fc_head = InFlight 0, fc_queue = []\<rparr>,
      lb_asyncTransport = Some True, lb_timeout = None, lb_immediate = False,
      lb_timers = [], lb_next = 1,
      lb_sent = [[make_entry sample_runtime 0 sample_call]], lb_inflight = [0]\<rparr>"
  by (simp add: sent_not_settled_def lb_run_def new_LogBuffer_def collect_def Let_def
      immediate_callback_def sendEntries_def)

text \<open>
  C10. When the entry list is empty and the flusher's send is still in flight,
  \<open>flush()\<close> returns at once: its future does not wait for the flusher, and the send
  stays in flight.
\<close>

theorem empty_flush_ignores_in_flight_send:
  "lb_entries s = [] \<Longrightarrow> lb_flusher s = Some c \<Longrightarrow> fc_head c = InFlight i \<Longrightarrow>
   i \<in> set (lb_inflight s) \<Longrightarrow>
   flush r s = (ReturnsAtOnce, s)"
  by (simp add: flush_def)

text \<open>The buffer after the first entry was sent and before the send settles.\<close>

theorem empty_flush_ignores_in_flight_send_witness:
  "lb_entries sent_not_settled = []
   \<and> lb_flusher sent_not_settled = Some \<lparr>fc_head = InFlight 0, fc_queue = []\<rparr>
   \<and> 0 \<in> set (lb_inflight sent_not_settled)
   \<and> flush ReturnsPromise sent_not_settled = (ReturnsAtOnce, sent_not_settled)"
  using empty_flush_ignores_in_flight_send
    [of sent_not_settled "\<lparr>fc_head = InFlight 0, fc_queue = []\<rparr>" 0 ReturnsPromise]
  by (simp add: sent_not_settled_eq)

section \<open>The idle timer of the log buffer\<close>

text \<open>
  C8 at two \<open>info\<close> entries collected in batching mode at 100 ms and 1100 ms, both under
  the three thresholds: the second \<open>collect\<close> arms a second timer and leaves the first
  one armed, so two idle timers are pending, due at 2100 ms and 3100 ms. When the first
  fires, 1000 ms after the last \<open>collect\<close>, it flushes both entries.
\<close>

theorem idle_timers_pile_up:
  "lb_asyncTransport sent_not_settled = Some True
   \<and> lb_timers two_timers = [(1, 2100), (2, 3100)]
   \<and> lb_timeout two_timers = Some 2
   \<and> lb_entries two_timers
       = [make_entry sample_runtime 100 sample_call, make_entry sample_runtime 1100 sample_call]
   \<and> lb_entries (timer_callback ReturnsPromise 1 two_timers) = []
   \<and> lb_flusher (timer_callback ReturnsPromise 1 two_timers)
       = Some \<lparr>fc_head = InFlight 0,
               fc_queue = [[make_entry sample_runtime 100 sample_call,
                            make_entry sample_runtime 1100 sample_call]]\<rparr>"
  by (simp add: two_timers_def sent_not_settled_eq collect_def Let_def sample_call_def
      collect_args_def setTimeout_def make_entry_def sample_runtime_def timer_callback_def
      clearTimeout_def flush_def startFlush_def chain_then_def)

section \<open>Sixty-five emits to one topic\<close>

text \<open>
  Topics that are array indices come first in the buffer, in ascending order, whatever
  the order of the emits; \<open>#flushEvents\<close> sends the topics in that order.
\<close>

lemma index_topics_come_first:
  "obj_set ''7'' a (obj_set ''10'' b (obj_set ''orders'' c []))
     = [(''7'', a), (''10'', b), (''orders'', c)]"
  by (simp add: obj_set_def array_index_def digit_value_def)

lemma emit_all_append:
  "emit_all rt (es @ fs) s =
     (case emit_all rt es s of Inl e \<Rightarrow> Inl e | Inr s' \<Rightarrow> emit_all rt fs s')"
  by (induction es arbitrary: s) (auto split: sum.splits)

lemma map_of_obj_insert: "k \<notin> fst ` set ps \<Longrightarrow> map_of (obj_insert k v ps) k = Some v"
  by (induction ps) (auto split: option.splits if_splits)

lemma map_of_replace:
  "k \<in> fst ` set ps \<Longrightarrow>
   map_of (map (\<lambda>(k', v'). if k' = k then (k', v) else (k', v')) ps) k = Some v"
  by (induction ps) auto

lemma map_of_obj_set: "map_of (obj_set k v ps) k = Some v"
  by (simp add: obj_set_def map_of_obj_insert map_of_replace)

lemma obj_set_member: "(k, v) \<in> set (obj_set k v ps)"
  using map_of_obj_set [of k v ps] by (rule map_of_SomeD)

lemma keys_replace:
  "map fst (map (\<lambda>(k', v'). if k' = k then (k', v) else (k', v')) ps) = map fst ps"
  by (induction ps) auto

lemma set_obj_insert: "set (obj_insert k v ps) = insert (k, v) (set ps)"
  by (induction ps) (auto split: option.splits if_splits)

lemma replace_absent:
  "k \<notin> fst ` set ps \<Longrightarrow> map (\<lambda>(k', v'). if k' = k then (k', w) else (k', v')) ps = ps"
  by (induction ps) auto

lemma replace_obj_insert:
  "k \<notin> fst ` set ps \<Longrightarrow>
   map (\<lambda>(k', v'). if k' = k then (k', w) else (k', v')) (obj_insert k v ps) = obj_insert k w ps"
  by (induction ps) (auto split: option.splits simp: replace_absent)

lemma replace_replace:
  "map (\<lambda>(k', v'). if k' = k then (k', w) else (k', v'))
     (map (\<lambda>(k', v'). if k' = k then (k', v) else (k', v')) ps)
   = map (\<lambda>(k', v'). if k' = k then (k', w) else (k', v')) ps"
  by (induction ps) auto

lemma obj_set_twice: "obj_set k w (obj_set k v ps) = obj_set k w ps"
proof (cases "k \<in> fst ` set ps")
  case True
  then have "k \<in> fst ` set (map (\<lambda>(k', v'). if k' = k then (k', v) else (k', v')) ps)"
    using keys_replace [of k v ps] by (metis set_map)
  with True show ?thesis
    unfolding obj_set_def by (simp only: if_True replace_replace)
next
  case False
  then show ?thesis
    by (simp add: obj_set_def set_obj_insert replace_obj_insert)
qed

lemma emit_new_topic:
  assumes "map_of (ee_emitted s) (md_topic meta) = None"
    and "md_topic meta \<notin> set Object_prototype_keys"
    and "\<not> overflow_check (ee_buffered s) (ee_publishRate s) (ee_deadline s - now)"
  shows "emit rt now meta data s =
           Inr (count_event (event_of rt (ee_ids s) (now, meta, data))
                  (s\<lparr>ee_emitted :=
                       obj_set (md_topic meta) [event_of rt (ee_ids s) (now, meta, data)]
                         (ee_emitted s)\<rparr>))"
  using assms by (simp add: emit_def Let_def obj_get_def)

lemma emit_known_topic:
  assumes "map_of (ee_emitted s) (md_topic meta) = Some cur"
    and "\<not> overflow_check (ee_buffered s) (ee_publishRate s) (ee_deadline s - now)"
    and "length cur < 64" and "ee_size s \<le> 64000"
  shows "emit rt now meta data s =
           Inr (count_event (event_of rt (ee_ids s) (now, meta, data))
                  (s\<lparr>ee_emitted :=
                       obj_set (md_topic meta) (cur @ [event_of rt (ee_ids s) (now, meta, data)])
                         (ee_emitted s)\<rparr>))"
  using assms by (simp add: emit_def Let_def obj_get_def)

lemma emit_full_topic:
  assumes "map_of (ee_emitted s) (md_topic meta) = Some cur"
    and "\<not> overflow_check (ee_buffered s) (ee_publishRate s) (ee_deadline s - now)"
    and "64 \<le> length cur \<or> 64000 < ee_size s"
  shows "emit rt now meta data s =
           Inr (count_event (event_of rt (ee_ids s) (now, meta, data))
                  (snd (ee_flush
                     (s\<lparr>ee_emitted :=
                          obj_set (md_topic meta)
                            (cur @ [event_of rt (ee_ids s) (now, meta, data)])
                            (ee_emitted s)\<rparr>))))"
  using assms by (auto simp: emit_def Let_def obj_get_def)

lemma ee_flush_keeps:
  "ee_buffered (snd (ee_flush x)) = ee_buffered x" "ee_size (snd (ee_flush x)) = 0"
  "ee_ids (snd (ee_flush x)) = ee_ids x" "ee_emitted (snd (ee_flush x)) = []"
  by (simp_all add: ee_flush_def ee_startFlush_def flushEvents_def Let_def split: option.splits)

lemma emit_all_no_flush:
  "ee_emitted s = obj_set t cur E \<Longrightarrow>
   \<forall>e \<in> set es. md_topic (fst (snd e)) = t \<Longrightarrow>
   length cur + length es \<le> 64 \<Longrightarrow>
   ee_size s + sum_list (map (\<lambda>x. json_length (event_of rt (ee_ids s) x)) (butlast es)) \<le> 64000 \<Longrightarrow>
   admitted (ee_publishRate s) (ee_deadline s) (ee_buffered s) es \<Longrightarrow>
   emit_all rt es s =
     Inr (s\<lparr>ee_emitted := obj_set t (cur @ map (event_of rt (ee_ids s)) es) E,
            ee_buffered := ee_buffered s + int (length es),
            ee_size := ee_size s + sum_list (map (\<lambda>x. json_length (event_of rt (ee_ids s) x)) es)\<rparr>)"
proof (induction es arbitrary: s cur)
  case Nil
  then show ?case by simp
next
  case (Cons e es)
  obtain now meta data where e: "e = (now, meta, data)" by (cases e) auto
  let ?ev = "event_of rt (ee_ids s) (now, meta, data)"
  let ?s1 = "s\<lparr>ee_emitted := obj_set t (cur @ [?ev]) E,
               ee_buffered := ee_buffered s + 1,
               ee_size := ee_size s + json_length ?ev\<rparr>"
  have topic: "md_topic meta = t" using Cons.prems(2) e by simp
  have look: "map_of (ee_emitted s) (md_topic meta) = Some cur"
    by (simp add: Cons.prems(1) topic map_of_obj_set)
  have adm: "\<not> overflow_check (ee_buffered s) (ee_publishRate s) (ee_deadline s - now)"
    and adm': "admitted (ee_publishRate s) (ee_deadline s) (ee_buffered s + 1) es"
    using Cons.prems(5) e by simp_all
  have room: "length cur < 64" "ee_size s \<le> 64000"
    using Cons.prems(3,4) by simp_all
  have first: "emit rt now meta data s = Inr ?s1"
    using emit_known_topic [OF look adm room, of rt data]
    by (simp add: count_event_def topic Cons.prems(1) obj_set_twice)
  have rest: "emit_all rt es ?s1 =
     Inr (?s1\<lparr>ee_emitted := obj_set t ((cur @ [?ev]) @ map (event_of rt (ee_ids ?s1)) es) E,
            ee_buffered := ee_buffered ?s1 + int (length es),
            ee_size := ee_size ?s1 + sum_list (map (\<lambda>x. json_length (event_of rt (ee_ids ?s1) x)) es)\<rparr>)"
  proof (cases "es = []")
    case True
    then show ?thesis by simp
  next
    case False
    then have "butlast (e # es) = e # butlast es" by simp
    then have size':
      "ee_size ?s1 + sum_list (map (\<lambda>x. json_length (event_of rt (ee_ids ?s1) x)) (butlast es))
         \<le> 64000"
      using Cons.prems(4) e by simp
    show ?thesis
      using Cons.prems(2,3) adm' size'
      by (intro Cons.IH) simp_all
  qed
  show ?case
    by (simp add: e first rest add.assoc)
qed

lemma admitted_append:
  "admitted R dl b (xs @ ys) = (admitted R dl b xs \<and> admitted R dl (b + int (length xs)) ys)"
  by (induction xs arbitrary: b) (auto simp: add.assoc)

lemma split_65:
  assumes "length (evs :: ('a \<times> 'b \<times> 'c) list) = 65"
  obtains n1 m1 d1 mid n65 m65 d65
  where "evs = (n1, m1, d1) # mid @ [(n65, m65, d65)]" and "length mid = 63"
proof -
  from assms obtain e1 rest where r: "evs = e1 # rest" by (cases evs) auto
  with assms have "rest \<noteq> []" by auto
  then obtain mid e65 where m: "rest = mid @ [e65]" by (cases rest rule: rev_cases) auto
  with r assms have "length mid = 63" by simp
  moreover obtain n1 m1 d1 where "e1 = (n1, m1, d1)" by (cases e1) auto
  moreover obtain n65 m65 d65 where "e65 = (n65, m65, d65)" by (cases e65) auto
  ultimately show thesis using r m that by blast
qed

lemma admitted_replicate:
  "0 < R \<Longrightarrow> R < 2 ^ 53 \<Longrightarrow> 0 \<le> b \<Longrightarrow> b + int n \<le> R * (dl - now) \<Longrightarrow>
   b + int n < 2 ^ 53 \<Longrightarrow>
   admitted (of_int R) dl b (replicate n (now, m, d))"
proof (induction n arbitrary: b)
  case 0
  then show ?case by simp
next
  case (Suc n)
  have "admitted (of_int R) dl (b + 1) (replicate n (now, m, d))"
    using Suc.prems by (intro Suc.IH) simp_all
  moreover have "\<not> overflow_check b (of_int R) (dl - now)"
    using Suc.prems by (simp add: overflow_check_int)
  ultimately show ?case by simp
qed

lemma sample_event_of:
  "event_of sample_runtime sample_ids (0, sample_meta, None) = sample_event"
  "json_length sample_event = 0"
  by (simp_all add: event_of_def sample_event_def json_length_def)

lemma emit_65:
  assumes len: "length evs = 65"
    and topic: "\<forall>e \<in> set evs. md_topic (fst (snd e)) = t"
    and own: "t \<notin> set Object_prototype_keys"
    and absent: "map_of (ee_emitted s) t = None"
    and small: "ee_size s + sum_list (map (\<lambda>x. json_length (event_of rt (ee_ids s) x)) (take 63 evs))
                  \<le> 64000"
    and adm: "admitted (ee_publishRate s) (ee_deadline s) (ee_buffered s) evs"
  shows "\<exists>s64 s'.
           emit_all rt (butlast evs) s = Inr s64
         \<and> ee_sent s64 = ee_sent s \<and> ee_flusher s64 = ee_flusher s
         \<and> ee_emitted s64 = obj_set t (map (event_of rt (ee_ids s)) (butlast evs)) (ee_emitted s)
         \<and> emit_all rt evs s = Inr s'
         \<and> ee_emitted s' = []
         \<and> (ee_flusher s = None \<longrightarrow>
              ee_sent s' = ee_sent s @ obj_set t (map (event_of rt (ee_ids s)) evs) (ee_emitted s))
         \<and> (\<forall>c. ee_flusher s = Some c \<longrightarrow>
              ee_sent s' = ee_sent s
              \<and> ee_flusher s' =
                  Some (c\<lparr>ec_queue :=
                           ec_queue c
                           @ [obj_set t (map (event_of rt (ee_ids s)) evs) (ee_emitted s)]\<rparr>))"
proof -
  from len obtain n1 m1 d1 mid n65 m65 d65
    where evs: "evs = (n1, m1, d1) # mid @ [(n65, m65, d65)]" and mid: "length mid = 63"
    by (rule split_65)
  let ?e1 = "(n1, m1, d1)"
  let ?e65 = "(n65, m65, d65)"
  have t1: "md_topic m1 = t" and t65: "md_topic m65 = t"
    and tmid: "\<forall>e \<in> set mid. md_topic (fst (snd e)) = t"
    using topic by (simp_all add: evs)
  have adm1: "\<not> overflow_check (ee_buffered s) (ee_publishRate s) (ee_deadline s - n1)"
    and admmid: "admitted (ee_publishRate s) (ee_deadline s) (ee_buffered s + 1) mid"
    and adm65: "\<not> overflow_check (ee_buffered s + 64) (ee_publishRate s) (ee_deadline s - n65)"
    using adm by (simp_all add: evs admitted_append mid add.assoc)
  let ?ev = "event_of rt (ee_ids s)"
  let ?len = "\<lambda>x. json_length (event_of rt (ee_ids s) x)"
  let ?E = "ee_emitted s"
  let ?s1 = "s\<lparr>ee_emitted := obj_set t [?ev ?e1] ?E,
               ee_buffered := ee_buffered s + 1,
               ee_size := ee_size s + ?len ?e1\<rparr>"
  have first: "emit rt n1 m1 d1 s = Inr ?s1"
    using emit_new_topic [of s m1 now rt] absent own adm1 t1
    by (simp add: emit_new_topic count_event_def)
  have take63: "take 63 evs = ?e1 # butlast mid"
    using mid by (simp add: evs butlast_conv_take)
  let ?s64 = "?s1\<lparr>ee_emitted := obj_set t ([?ev ?e1] @ map ?ev mid) ?E,
               ee_buffered := ee_buffered ?s1 + int (length mid),
               ee_size := ee_size ?s1 + sum_list (map ?len mid)\<rparr>"
  have p1: "ee_emitted ?s1 = obj_set t [?ev ?e1] ?E" by simp
  have p4: "length [?ev ?e1] + length mid \<le> 64" using mid by simp
  have p5: "ee_size ?s1 + sum_list (map (\<lambda>x. json_length (event_of rt (ee_ids ?s1) x)) (butlast mid))
              \<le> 64000"
    using small by (simp add: take63)
  have p6: "admitted (ee_publishRate ?s1) (ee_deadline ?s1) (ee_buffered ?s1) mid"
    using admmid by simp
  have middle: "emit_all rt mid ?s1 = Inr ?s64"
    using emit_all_no_flush [OF p1 tmid p4 p5 p6] by simp
  have upto64: "emit_all rt (butlast evs) s = Inr ?s64"
    by (simp add: evs butlast_append first middle)
  let ?batch = "obj_set t (map ?ev evs) ?E"
  let ?s' = "count_event (?ev ?e65) (snd (ee_flush (?s64\<lparr>ee_emitted := ?batch\<rparr>)))"
  have look64: "map_of (ee_emitted ?s64) (md_topic m65) = Some ([?ev ?e1] @ map ?ev mid)"
    by (simp add: t65 map_of_obj_set)
  have adm64: "\<not> overflow_check (ee_buffered ?s64) (ee_publishRate ?s64) (ee_deadline ?s64 - n65)"
    using adm65 mid by (simp add: add.assoc)
  have full: "64 \<le> length ([?ev ?e1] @ map ?ev mid) \<or> 64000 < ee_size ?s64"
    using mid by simp
  have last: "emit rt n65 m65 d65 ?s64 = Inr ?s'"
    using emit_full_topic [OF look64 adm64 full, of rt d65]
    by (simp add: evs t65 obj_set_twice)
  have all: "emit_all rt evs s = Inr ?s'"
  proof -
    have "emit_all rt evs s = emit_all rt (mid @ [?e65]) ?s1"
      using first by (simp add: evs)
    also have "\<dots> = emit rt n65 m65 d65 ?s64"
      by (simp add: emit_all_append middle split: sum.splits)
    finally show ?thesis
      using last by simp
  qed
  have c6: "ee_emitted ?s' = []"
    by (simp add: count_event_def ee_flush_keeps)
  have c7: "ee_flusher s = None \<longrightarrow> ee_sent ?s' = ee_sent s @ ?batch"
    by (simp add: count_event_def ee_flush_def Let_def ee_startFlush_def flushEvents_def)
  have c8: "\<forall>c. ee_flusher s = Some c \<longrightarrow>
      ee_sent ?s' = ee_sent s
      \<and> ee_flusher ?s' = Some (c\<lparr>ec_queue := ec_queue c @ [?batch]\<rparr>)"
    by (simp add: count_event_def ee_flush_def Let_def ee_startFlush_def)
  have c2: "ee_sent ?s64 = ee_sent s" and c3: "ee_flusher ?s64 = ee_flusher s"
    and c4: "ee_emitted ?s64 = obj_set t (map ?ev (butlast evs)) ?E"
    by (simp_all add: evs butlast_append)
  show ?thesis
  proof (intro exI conjI)
    show "emit_all rt (butlast evs) s = Inr ?s64" by (fact upto64)
    show "ee_sent ?s64 = ee_sent s" by (fact c2)
    show "ee_flusher ?s64 = ee_flusher s" by (fact c3)
    show "ee_emitted ?s64 = obj_set t (map ?ev (butlast evs)) ?E" by (fact c4)
    show "emit_all rt evs s = Inr ?s'" by (fact all)
    show "ee_emitted ?s' = []" by (fact c6)
    show "ee_flusher s = None \<longrightarrow> ee_sent ?s' = ee_sent s @ ?batch" by (fact c7)
    show "\<forall>c. ee_flusher s = Some c \<longrightarrow>
      ee_sent ?s' = ee_sent s
      \<and> ee_flusher ?s' = Some (c\<lparr>ec_queue := ec_queue c @ [?batch]\<rparr>)" by (fact c8)
  qed
qed

lemma next_round_sends_whole_batch:
  "ee_flusher x = Some ch \<Longrightarrow> ec_pending ch = [] \<Longrightarrow> ec_queue ch = batch # q \<Longrightarrow>
   ee_sent (ee_next_round x) = ee_sent x @ batch"
  by (simp add: ee_next_round_def flushEvents_def)

text \<open>
  C9, as the code has it. A run of 65 emits to a topic that has no list yet and is not
  the name of a member inherited from \<open>Object.prototype\<close>, none of which overflows, with
  the size seen by the first 64 checks at most 64000 (the size before the run plus the
  JSON lengths of the first 63 events): the first 64 emits flush nothing, the 65th
  flushes, the whole buffer is detached with the 65 events of the topic as one batch,
  and the buffer is empty afterwards. When no flush was made before, the batch goes to
  the transport at once. Otherwise it is chained behind the earlier rounds and the
  transport is not called; when its turn comes, it is sent whole.
\<close>

theorem sixty_fifth_emit_flushes:
  assumes len: "length evs = 65"
    and topic: "\<forall>e \<in> set evs. md_topic (fst (snd e)) = t"
    and own: "t \<notin> set Object_prototype_keys"
    and absent: "map_of (ee_emitted s) t = None"
    and small: "ee_size s + sum_list (map (\<lambda>x. json_length (event_of rt (ee_ids s) x)) (take 63 evs))
                  \<le> 64000"
    and adm: "admitted (ee_publishRate s) (ee_deadline s) (ee_buffered s) evs"
  shows "\<exists>s64 s'.
           emit_all rt (butlast evs) s = Inr s64
         \<and> ee_sent s64 = ee_sent s \<and> ee_flusher s64 = ee_flusher s
         \<and> ee_emitted s64 = obj_set t (map (event_of rt (ee_ids s)) (butlast evs)) (ee_emitted s)
         \<and> emit_all rt evs s = Inr s'
         \<and> ee_emitted s' = []
         \<and> (ee_flusher s = None \<longrightarrow>
              ee_sent s' = ee_sent s @ obj_set t (map (event_of rt (ee_ids s)) evs) (ee_emitted s))
         \<and> (\<forall>c. ee_flusher s = Some c \<longrightarrow>
              ee_sent s' = ee_sent s
              \<and> ee_flusher s' =
                  Some (c\<lparr>ec_queue :=
                           ec_queue c
                           @ [obj_set t (map (event_of rt (ee_ids s)) evs) (ee_emitted s)]\<rparr>))
         \<and> (t, map (event_of rt (ee_ids s)) evs)
               \<in> set (obj_set t (map (event_of rt (ee_ids s)) evs) (ee_emitted s))
         \<and> (\<forall>x ch q.
               ee_flusher x = Some ch \<and> ec_pending ch = []
               \<and> ec_queue ch = obj_set t (map (event_of rt (ee_ids s)) evs) (ee_emitted s) # q
               \<longrightarrow> ee_sent (ee_next_round x)
                     = ee_sent x @ obj_set t (map (event_of rt (ee_ids s)) evs) (ee_emitted s))"
proof -
  let ?batch = "obj_set t (map (event_of rt (ee_ids s)) evs) (ee_emitted s)"
  from emit_65 [OF len topic own absent small adm]
  obtain s64 s' where run:
    "emit_all rt (butlast evs) s = Inr s64"
    "ee_sent s64 = ee_sent s" "ee_flusher s64 = ee_flusher s"
    "ee_emitted s64 = obj_set t (map (event_of rt (ee_ids s)) (butlast evs)) (ee_emitted s)"
    "emit_all rt evs s = Inr s'"
    "ee_emitted s' = []"
    "ee_flusher s = None \<longrightarrow> ee_sent s' = ee_sent s @ ?batch"
    "\<forall>c. ee_flusher s = Some c \<longrightarrow>
       ee_sent s' = ee_sent s
       \<and> ee_flusher s' = Some (c\<lparr>ec_queue := ec_queue c @ [?batch]\<rparr>)"
    by (elim exE conjE) (rule that)
  have whole: "(t, map (event_of rt (ee_ids s)) evs) \<in> set ?batch"
    by (rule obj_set_member)
  have turn: "\<forall>x ch q.
      ee_flusher x = Some ch \<and> ec_pending ch = [] \<and> ec_queue ch = ?batch # q
      \<longrightarrow> ee_sent (ee_next_round x) = ee_sent x @ ?batch"
    by (auto intro: next_round_sends_whole_batch)
  show ?thesis
  proof (intro exI conjI)
    show "emit_all rt (butlast evs) s = Inr s64" by (fact run(1))
    show "ee_sent s64 = ee_sent s" by (fact run(2))
    show "ee_flusher s64 = ee_flusher s" by (fact run(3))
    show "ee_emitted s64 = obj_set t (map (event_of rt (ee_ids s)) (butlast evs)) (ee_emitted s)"
      by (fact run(4))
    show "emit_all rt evs s = Inr s'" by (fact run(5))
    show "ee_emitted s' = []" by (fact run(6))
    show "ee_flusher s = None \<longrightarrow> ee_sent s' = ee_sent s @ ?batch" by (fact run(7))
    show "\<forall>c. ee_flusher s = Some c \<longrightarrow>
       ee_sent s' = ee_sent s
       \<and> ee_flusher s' = Some (c\<lparr>ec_queue := ec_queue c @ [?batch]\<rparr>)" by (fact run(8))
    show "(t, map (event_of rt (ee_ids s)) evs) \<in> set ?batch" by (fact whole)
    show "\<forall>x ch q.
      ee_flusher x = Some ch \<and> ec_pending ch = [] \<and> ec_queue ch = ?batch # q
      \<longrightarrow> ee_sent (ee_next_round x) = ee_sent x @ ?batch" by (fact turn)
  qed
qed


lemma orders_is_no_member: "''orders'' \<notin> set Object_prototype_keys"
  by (simp add: Object_prototype_keys_def)

theorem sixty_fifth_emit_flushes_witness:
  "length (replicate 65 (0::int, sample_meta, None :: json option)) = 65
   \<and> admitted 1000 30000 0 (replicate 65 (0, sample_meta, None))
   \<and> (\<exists>s64 s'.
         emit_all sample_runtime (replicate 64 (0, sample_meta, None))
             (new_EventEmitter 1000 sample_ids 30000 0) = Inr s64
       \<and> ee_sent s64 = []
       \<and> emit_all sample_runtime (replicate 65 (0, sample_meta, None))
             (new_EventEmitter 1000 sample_ids 30000 0) = Inr s'
       \<and> ee_emitted s' = []
       \<and> ee_sent s' = [(''orders'', replicate 65 sample_event)])"
proof -
  let ?evs = "replicate 65 (0::int, sample_meta, None :: json option)"
  let ?s = "new_EventEmitter 1000 sample_ids 30000 0"
  have "admitted (of_int 1000) 30000 0 ?evs"
    by (rule admitted_replicate) simp_all
  then have adm: "admitted 1000 30000 0 ?evs"
    by (simp only: of_int_numeral)
  have h1: "length ?evs = 65" by simp
  have h2: "\<forall>e \<in> set ?evs. md_topic (fst (snd e)) = ''orders''"
    by (simp add: sample_meta_def)
  have h3: "map_of (ee_emitted ?s) ''orders'' = None"
    by (simp add: new_EventEmitter_def)
  have h4: "ee_size ?s
      + sum_list (map (\<lambda>x. json_length (event_of sample_runtime (ee_ids ?s) x)) (take 63 ?evs))
      \<le> 64000"
    by (simp add: new_EventEmitter_def sample_event_of sum_list_replicate)
  have h5: "admitted (ee_publishRate ?s) (ee_deadline ?s) (ee_buffered ?s) ?evs"
    using adm by (simp add: new_EventEmitter_def)
  have bl: "butlast ?evs = replicate 64 (0, sample_meta, None)"
    by (simp add: butlast_conv_take)
  have ids: "ee_ids ?s = sample_ids" "ee_emitted ?s = []" "ee_flusher ?s = None" "ee_sent ?s = []"
    by (simp_all add: new_EventEmitter_def)
  have batch: "obj_set ''orders'' (map (event_of sample_runtime sample_ids) ?evs) []
      = [(''orders'', replicate 65 sample_event)]"
    by (simp add: obj_set_def sample_event_of)
  show ?thesis
    using sixty_fifth_emit_flushes [OF h1 h2 orders_is_no_member h3 h4 h5] adm
    unfolding bl ids batch
    by (elim exE conjE) (simp add: h1)
qed

lemma length_big_payload: "length big_payload = 63999"
  by (simp add: big_payload_def)

lemma big_first_run:
  "emit_all sample_runtime big_first (new_EventEmitter 1000 sample_ids 30000 0)
     = Inr after_big_first"
proof -
  let ?s3 = "\<lparr>ee_publishRate = 1000, ee_ids = sample_ids,
      ee_emitted = [(''orders'', [sample_event])], ee_size = 0,
      ee_flusher = Some \<lparr>ec_pending = [(0, ''orders'', [big_event, sample_event])],
                         ec_queue = []\<rparr>,
      ee_deadline = 30000, ee_buffered = 3,
      ee_next = 1, ee_sent = [(''orders'', [big_event, sample_event])], ee_fatal = []\<rparr>"
  have three: "emit_all sample_runtime
      [(0, sample_meta, Some (JStr big_payload)), (0, sample_meta, None), (0, sample_meta, None)]
      (new_EventEmitter 1000 sample_ids 30000 0) = Inr ?s3"
    by (simp add: emit_def Let_def new_EventEmitter_def overflow_check_examples
        sample_runtime_def sample_meta_def sample_event_def big_event_def length_big_payload
        ee_flush_def ee_startFlush_def flushEvents_def obj_get_def obj_set_def
        Object_prototype_keys_def event_of_def count_event_def json_length_def)
  have "admitted (of_int 1000) 30000 3 (replicate 62 (0::int, sample_meta, None :: json option))"
    by (rule admitted_replicate) simp_all
  then have adm: "admitted (ee_publishRate ?s3) (ee_deadline ?s3) (ee_buffered ?s3)
      (replicate 62 (0, sample_meta, None))"
    by (simp only: of_int_numeral EventEmitter.simps)
  have r63: "replicate 63 sample_event = sample_event # replicate 62 sample_event"
    using replicate_Suc [of 62 sample_event] by simp
  have q1: "ee_emitted ?s3 = obj_set ''orders'' [sample_event] []"
    by (simp add: obj_set_def)
  have q3: "\<forall>e \<in> set (replicate 62 (0::int, sample_meta, None :: json option)).
              md_topic (fst (snd e)) = ''orders''"
    by (simp add: sample_meta_def)
  have q4: "length [sample_event] + length (replicate 62 (0::int, sample_meta, None :: json option))
              \<le> 64"
    by simp
  have q5: "ee_size ?s3
      + sum_list (map (\<lambda>x. json_length (event_of sample_runtime (ee_ids ?s3) x))
          (butlast (replicate 62 (0, sample_meta, None)))) \<le> 64000"
    by (simp add: sample_event_of sum_list_replicate butlast_conv_take)
  have rest: "emit_all sample_runtime (replicate 62 (0, sample_meta, None)) ?s3
      = Inr after_big_first"
    using emit_all_no_flush [OF q1 q3 q4 q5 adm]
    by (simp add: sample_event_of sum_list_replicate after_big_first_def r63 obj_set_def)
  have split: "big_first = [(0, sample_meta, Some (JStr big_payload)), (0, sample_meta, None),
      (0, sample_meta, None)] @ replicate 62 (0, sample_meta, None)"
    by (simp add: big_first_def)
  show ?thesis
    unfolding split emit_all_append three using rest by simp
qed

lemma busy_run:
  "map_sum id ee_sent
     (emit_all sample_runtime (replicate 65 (0, sample_meta, None)) one_in_flight)
   = Inr (ee_sent one_in_flight)"
proof -
  let ?evs = "replicate 65 (0::int, sample_meta, None :: json option)"
  have h1: "length ?evs = 65" by simp
  have h2: "\<forall>e \<in> set ?evs. md_topic (fst (snd e)) = ''orders''"
    by (simp add: sample_meta_def)
  have h3: "map_of (ee_emitted one_in_flight) ''orders'' = None"
    by (simp add: one_in_flight_def)
  have h4: "ee_size one_in_flight
      + sum_list (map (\<lambda>x. json_length (event_of sample_runtime (ee_ids one_in_flight) x))
          (take 63 ?evs)) \<le> 64000"
    by (simp add: one_in_flight_def sample_event_of sum_list_replicate)
  have "admitted (of_int 1) 1000 1 ?evs"
    by (rule admitted_replicate) simp_all
  then have h5: "admitted (ee_publishRate one_in_flight) (ee_deadline one_in_flight)
      (ee_buffered one_in_flight) ?evs"
    by (simp only: of_int_1 one_in_flight_def EventEmitter.simps)
  have busy: "ee_flusher one_in_flight
      = Some \<lparr>ec_pending = [(0, ''orders'', [sample_event])], ec_queue = []\<rparr>"
    by (simp add: one_in_flight_def)
  from emit_65 [OF h1 h2 orders_is_no_member h3 h4 h5]
  obtain s' where "emit_all sample_runtime ?evs one_in_flight = Inr s'"
    and "\<forall>c. ee_flusher one_in_flight = Some c \<longrightarrow> ee_sent s' = ee_sent one_in_flight
           \<and> ee_flusher s' =
               Some (c\<lparr>ec_queue :=
                 ec_queue c
                 @ [obj_set ''orders''
                      (map (event_of sample_runtime (ee_ids one_in_flight)) ?evs)
                      (ee_emitted one_in_flight)]\<rparr>)"
    by (elim exE conjE) (rule that)
  then show ?thesis
    using busy by simp
qed

text \<open>
  C9 as stated fails in two ways. When the events are large: if the first of the 65
  events carries the 63999-letter payload, the second emit already flushes (two events in
  the batch), the 65th emit flushes nothing, and 63 events are left in the buffer. When
  a send is in flight (one emit, then a flush): the flush of the 65th emit calls no
  \<open>sendEvents\<close>, so the transport has still seen the first batch only. And for the topic
  \<open>constructor\<close> the first emit raises a type error.
\<close>

theorem sixty_fifth_emit_flushes_counterexample:
  "length big_first = 65
   \<and> emit_all sample_runtime big_first (new_EventEmitter 1000 sample_ids 30000 0)
       = Inr after_big_first
   \<and> ee_sent after_big_first = [(''orders'', [big_event, sample_event])]
   \<and> ee_emitted after_big_first = [(''orders'', replicate 63 sample_event)]
   \<and> emit sample_runtime 0 sample_meta None (new_EventEmitter 1 sample_ids 1000 0)
       = Inr one_pending
   \<and> snd (ee_flush one_pending) = one_in_flight
   \<and> map_sum id ee_sent
        (emit_all sample_runtime (replicate 65 (0, sample_meta, None)) one_in_flight)
       = Inr [(''orders'', [sample_event])]
   \<and> emit sample_runtime 0 (sample_meta\<lparr>md_topic := ''constructor''\<rparr>) None
        (new_EventEmitter 1000 sample_ids 30000 0)
       = Inl TypeError"
proof -
  have reach: "emit sample_runtime 0 sample_meta None (new_EventEmitter 1 sample_ids 1000 0)
       = Inr one_pending \<and> snd (ee_flush one_pending) = one_in_flight"
    by (simp add: emit_def Let_def new_EventEmitter_def one_pending_def one_in_flight_def
      sample_event_def sample_meta_def overflow_check_examples obj_get_def obj_set_def
      Object_prototype_keys_def event_of_def count_event_def json_length_def ee_flush_def
      ee_startFlush_def flushEvents_def)
  have member: "emit sample_runtime 0 (sample_meta\<lparr>md_topic := ''constructor''\<rparr>) None
        (new_EventEmitter 1000 sample_ids 30000 0) = Inl TypeError"
    by (simp add: emit_def Let_def new_EventEmitter_def overflow_check_examples obj_get_def
        Object_prototype_keys_def)
  have sent: "ee_sent one_in_flight = [(''orders'', [sample_event])]"
    by (simp add: one_in_flight_def)
  show ?thesis
    using big_first_run busy_run reach member
    by (simp add: sent big_first_def after_big_first_def)
qed

section \<open>The order of flushes\<close>

lemmas lb_ops =
  flush_def startFlush_def sendEntries_def chain_then_def clearTimeout_def setTimeout_def
  Let_def




lemma flush_mode: "lb_asyncTransport (snd (flush r s)) = lb_asyncTransport s"
  "lb_immediate (snd (flush r s)) = lb_immediate s"
  by (auto simp: lb_ops split: option.splits send_result.splits)







































end
